theory Spec2Isabelle
  imports Main
begin

section \<open>Strings: the library functions the validation code calls\<close>

text \<open>
  Go strings are byte sequences; they are modelled as \<open>string\<close> (a list of 8-bit
  characters).  The functions below stand for \<^verbatim>\<open>strings.TrimSpace\<close>,
  \<^verbatim>\<open>strings.Split\<close>, \<^verbatim>\<open>strconv.Atoi\<close> and the \<^verbatim>\<open>%d\<close> verb of
  \<^verbatim>\<open>fmt.Sprintf\<close>.  \<open>TrimSpace\<close> is exact on ASCII input: the white space of
  the ASCII range is tab, line feed, vertical tab, form feed, carriage return and blank;
  multi-byte Unicode white space is outside the model.
\<close>

definition isSpace :: "char \<Rightarrow> bool" where
  "isSpace c = (c = CHR 0x09 \<or> c = CHR 0x0A \<or> c = CHR 0x0B \<or> c = CHR 0x0C \<or> c = CHR 0x0D \<or> c = CHR '' '')"

definition TrimSpace :: "string \<Rightarrow> string" where
  "TrimSpace s = rev (dropWhile isSpace (rev (dropWhile isSpace s)))"

text \<open>\<^verbatim>\<open>strings.Split(s, ":")\<close>: one more piece than there are separators; the
  empty string gives one empty piece.\<close>

fun Split :: "string \<Rightarrow> char \<Rightarrow> string list" where
  "Split [] sep = [[]]"
| "Split (c # cs) sep =
     (if c = sep then [] # Split cs sep
      else (case Split cs sep of
              [] \<Rightarrow> [[c]]
            | p # ps \<Rightarrow> (c # p) # ps))"

definition isDigit :: "char \<Rightarrow> bool" where
  "isDigit c = (48 \<le> (of_char c :: nat) \<and> (of_char c :: nat) \<le> 57)"

definition digitVal :: "char \<Rightarrow> int" where
  "digitVal c = int (of_char c) - 48"

fun digitsVal :: "int \<Rightarrow> string \<Rightarrow> int" where
  "digitsVal acc [] = acc"
| "digitsVal acc (c # cs) = digitsVal (acc * 10 + digitVal c) cs"

text \<open>\<^verbatim>\<open>strconv.Atoi\<close>: an optional sign, then at least one decimal digit, and a
  result that fits a 64-bit \<^verbatim>\<open>int\<close>; \<open>None\<close> is the error return.\<close>

definition Atoi :: "string \<Rightarrow> int option" where
  "Atoi s =
     (let neg = (s \<noteq> [] \<and> hd s = CHR ''-'');
          body = (if s \<noteq> [] \<and> (hd s = CHR ''-'' \<or> hd s = CHR ''+'') then tl s else s)
      in if body = [] \<or> \<not> list_all isDigit body then None
         else (let v = (if neg then - digitsVal 0 body else digitsVal 0 body)
               in if v < - (2 ^ 63) \<or> 2 ^ 63 - 1 < v then None else Some v))"

definition digitChar :: "nat \<Rightarrow> char" where
  "digitChar d = ''0123456789'' ! d"

fun natDec :: "nat \<Rightarrow> string" where
  "natDec n = (if n < 10 then [digitChar n] else natDec (n div 10) @ [digitChar (n mod 10)])"

declare natDec.simps [simp del]

text \<open>The \<^verbatim>\<open>%d\<close> verb applied to an integer.\<close>

definition itoa :: "int \<Rightarrow> string" where
  "itoa i = (if i < 0 then CHR ''-'' # natDec (nat (- i)) else natDec (nat i))"

section \<open>Address (the address file with \<^verbatim>\<open>ValidateAddress\<close>)\<close>

record Address =
  valid :: bool
  address :: string
  port :: int

definition NewAddress :: "string \<Rightarrow> Address" where
  "NewAddress a = \<lparr>valid = False, address = a, port = 0\<rparr>"

definition IsBlank :: "Address \<Rightarrow> bool" where
  "IsBlank a = (address a = [])"

definition IsValid :: "Address \<Rightarrow> bool" where
  "IsValid a = valid a"

definition Port :: "Address \<Rightarrow> int" where
  "Port a = port a"

text \<open>
  \<^verbatim>\<open>net.LookupIP\<close> is the environment: a resolver maps a host name to \<open>None\<close>
  (the lookup failed) or to the list of its addresses.  An address either has an IPv4
  form, carried with its dotted text (what \<^verbatim>\<open>To4().String()\<close> prints), or has none.
\<close>

datatype IP = IPv4 string | IPv6 string

fun To4 :: "IP \<Rightarrow> string option" where
  "To4 (IPv4 s) = Some s"
| "To4 (IPv6 s) = None"

type_synonym resolver = "string \<Rightarrow> IP list option"

text \<open>The resolution step of \<^verbatim>\<open>ValidateAddress\<close> (the \<^verbatim>\<open>net.LookupIP\<close> branch):
  it may clear the flag and may rewrite the address to the host part.\<close>

definition resolveStep :: "resolver \<Rightarrow> string \<Rightarrow> bool \<Rightarrow> Address \<Rightarrow> Address" where
  "resolveStep lookupIP host remote a =
     (case lookupIP host of
        None \<Rightarrow> (if \<not> remote then a\<lparr>valid := False\<rparr> else a)
      | Some ips \<Rightarrow>
          (case ips of
             [] \<Rightarrow> a\<lparr>valid := False\<rparr>
           | ip # rest \<Rightarrow>
               (case To4 ip of
                  None \<Rightarrow> a
                | Some v4 \<Rightarrow> (if \<not> remote then a\<lparr>address := v4\<rparr> else a\<lparr>address := host\<rparr>))))"

text \<open>The port step of \<^verbatim>\<open>ValidateAddress\<close> (the \<^verbatim>\<open>strconv.Atoi\<close> branch).\<close>

definition portStep :: "string \<Rightarrow> Address \<Rightarrow> Address" where
  "portStep p a =
     (case Atoi p of
        None \<Rightarrow> a\<lparr>valid := False\<rparr>
      | Some i \<Rightarrow>
          (if i < 1 \<or> i > 65536 then a\<lparr>valid := False\<rparr>
           else a\<lparr>address := address a @ '':'' @ itoa i, port := i\<rparr>))"

text \<open>\<^verbatim>\<open>ValidateAddress(group, name, attr, remote)\<close>: the three strings only feed the
  console messages, which the model leaves out.  The result is the receiver after the
  call; the method's return value is its \<open>valid\<close> field.\<close>

definition ValidateAddress :: "resolver \<Rightarrow> bool \<Rightarrow> Address \<Rightarrow> Address" where
  "ValidateAddress lookupIP remote a =
     (let parts = Split (address a) CHR '':''
      in if length parts \<noteq> 2 then a\<lparr>valid := False\<rparr>
         else portStep (parts ! 1) (resolveStep lookupIP (parts ! 0) remote (a\<lparr>valid := True\<rparr>)))"

text \<open>A resolver for examples: every name resolves to itself as one IPv4 address, which
  is what \<^verbatim>\<open>net.LookupIP\<close> answers for a dotted IPv4 literal.\<close>

definition literalResolver :: resolver where
  "literalResolver h = Some [IPv4 h]"

text \<open>A resolver for examples that knows no name at all.\<close>

definition failingResolver :: resolver where
  "failingResolver h = None"

section \<open>Hosts, tunnels and the package-level registries\<close>

text \<open>
  The records follow the structs of the host and tunnel files.  Field names carry a
  one-letter prefix (\<open>h\<close> for \<^verbatim>\<open>Host\<close>, \<open>t\<close> for \<^verbatim>\<open>Tunnel\<close>) because both
  structs have a \<^verbatim>\<open>Name\<close>.  A pointer that may be nil is an \<open>option\<close>.  The maps
  \<^verbatim>\<open>Hosts\<close>, \<^verbatim>\<open>Tunnels\<close>, \<^verbatim>\<open>identityMap\<close> and \<^verbatim>\<open>hostKeysMap\<close> are package
  variables; they are gathered in the record \<open>Globals\<close> and passed explicitly.  The
  registries hold pointers: writing a field through a registered pointer is an update of
  the registry entry.
\<close>

datatype Panic = NilDereference | IndexOutOfRange

datatype HostKeyCallback = AcceptAnyKey | KnownHostsFile string

datatype Signer = Signer string

datatype Client = Client string

datatype Conn = Conn string

record ClientConfig =
  User :: string
  Auth :: "Signer option"
  HostKeyCallbackOf :: "HostKeyCallback option"

record Host =
  hName :: string
  hAddress :: "Address option"
  hUsername :: string
  hIdentity :: string
  hPassphrase :: string
  hKnownHosts :: string
  hJumpHost :: string
  isHost :: bool
  isJumpHost :: bool
  client :: "Client option"
  config :: "ClientConfig option"

record Tunnel =
  tName :: string
  tLocal :: "Address option"
  tHost :: string
  tForward :: "Address option"

datatype FileProblem = FileNotFound | FileIsDirectory | PermissionDenied | OtherFailure | CannotDecode

text \<open>The error lines the validation prints, as structured values in the order they
  are printed.  Lines of level Info and Warn are left out, and so are the lines that
  address validation prints itself.\<close>

datatype Message =
    ErrHostNameBlank
  | ErrHostRedefined string
  | ErrKnownHosts string string FileProblem
  | ErrIdentityMissing string
  | ErrIdentity string string FileProblem
  | ErrHostAddressRequired string
  | ErrJumpHostSelf string
  | ErrJumpHostUndefined string string
  | ErrMultiHostJump string
  | ErrTunnelNameBlank
  | ErrTunnelRedefined string
  | ErrForwardRequired string
  | ErrLocalMissing string
  | ErrTunnelHostMissing string
  | ErrTunnelHostUndefined string string

record Globals =
  Hosts :: "string \<rightharpoonup> Host"
  Tunnels :: "string \<rightharpoonup> Tunnel"
  identityMap :: "string \<rightharpoonup> Signer"
  hostKeysMap :: "string \<rightharpoonup> HostKeyCallback"
  console :: "Message list"

text \<open>The package variables as the program starts: empty registries, and the host-key
  table with its one initial entry, the callback for the empty path that returns no
  error for any key.\<close>

definition initialGlobals :: Globals where
  "initialGlobals =
     \<lparr>Hosts = Map.empty, Tunnels = Map.empty, identityMap = Map.empty,
      hostKeysMap = [[] \<mapsto> AcceptAnyKey], console = []\<rparr>"

definition say :: "Message \<Rightarrow> Globals \<Rightarrow> Globals" where
  "say m g = g\<lparr>console := console g @ [m]\<rparr>"

text \<open>
  The environment: the file system, the key parsers, the free-port probe and the SSH
  library, as functions the model is parametric in.  \<open>AddressValidate\<close> stands for the
  five-argument \<^verbatim>\<open>Address.Validate\<close> that the current host and tunnel files call and
  whose body is not among the sources: it returns the method's result and the receiver
  after the call.  \<open>freePort\<close> gives the outcome of the n-th probe (\<open>None\<close>: no listener).
\<close>

datatype StatResult = StatNotExist | StatFailed | StatIsDir | StatIsFile

datatype ReadError = ReadPermission | ReadOther

record Env =
  Stat :: "string \<Rightarrow> StatResult"
  knownhostsNew :: "string \<Rightarrow> ReadError + HostKeyCallback"
  ReadFile :: "string \<Rightarrow> ReadError + string"
  ParsePrivateKey :: "string \<Rightarrow> Signer option"
  ParsePrivateKeyWithPassphrase :: "string \<Rightarrow> string \<Rightarrow> Signer option"
  AddressValidate :: "string \<Rightarrow> string \<Rightarrow> string \<Rightarrow> bool \<Rightarrow> bool \<Rightarrow> Address \<Rightarrow> bool \<times> Address"
  freePort :: "nat \<Rightarrow> int option"
  verboseFlag :: bool
  sshDial :: "string \<Rightarrow> ClientConfig option \<Rightarrow> Client option"
  clientDial :: "Client option \<Rightarrow> string \<Rightarrow> Panic + Conn option"

subsection \<open>\<^verbatim>\<open>Host.Open\<close> and \<^verbatim>\<open>Host.Dial\<close>\<close>

text \<open>
  The mutex is left out (the model is sequential).  \<^verbatim>\<open>ssh.Dial\<close> answers a client or
  an error with a nil client; the assignment to \<^verbatim>\<open>h.client\<close> happens in both cases.
  \<^verbatim>\<open>Open\<close> reads \<^verbatim>\<open>h.Address.address\<close>, so a nil address is a nil dereference.
  \<^verbatim>\<open>Dial\<close> calls \<^verbatim>\<open>h.client.Dial\<close> with no test of \<^verbatim>\<open>h.client\<close>.  Calling a
  method through a nil pointer is not itself a fault in Go: the receiver reaches the
  method as it is, and what happens is decided in the body of the library's
  \<^verbatim>\<open>(*ssh.Client).Dial\<close>, which is not among the sources.  So \<open>clientDial\<close> takes
  the receiver as \<^verbatim>\<open>h.client\<close> holds it (\<open>None\<close> is nil) and answers with a panic, an
  error (\<open>Inr None\<close>) or a connection; \<open>Dial\<close> adds nothing to that answer but the
  boolean.
\<close>

definition Open :: "Env \<Rightarrow> Host \<Rightarrow> Panic + (bool \<times> Host)" where
  "Open env h =
     (case client h of
        Some c \<Rightarrow> Inr (True, h)
      | None \<Rightarrow>
          (case hAddress h of
             None \<Rightarrow> Inl NilDereference
           | Some a \<Rightarrow>
               (case sshDial env (address a) (config h) of
                  None \<Rightarrow> Inr (False, h\<lparr>client := None\<rparr>)
                | Some c \<Rightarrow> Inr (True, h\<lparr>client := Some c\<rparr>))))"



subsection \<open>\<^verbatim>\<open>Host.Validate\<close>\<close>

text \<open>The known-hosts block of \<^verbatim>\<open>Host.Validate\<close>.  \<^verbatim>\<open>os.Stat\<close> failing with an
  error other than "not exist" leaves the file info nil, and the next test calls a
  method on it.\<close>

definition checkKnownHosts :: "Env \<Rightarrow> Host \<Rightarrow> bool \<Rightarrow> Globals \<Rightarrow> Panic + (bool \<times> Globals)" where
  "checkKnownHosts env h v g =
     (case hostKeysMap g (hKnownHosts h) of
        Some cb \<Rightarrow> Inr (v, g)
      | None \<Rightarrow>
          (case Stat env (hKnownHosts h) of
             StatNotExist \<Rightarrow> Inr (False, say (ErrKnownHosts (hName h) (hKnownHosts h) FileNotFound) g)
           | StatFailed \<Rightarrow> Inl NilDereference
           | StatIsDir \<Rightarrow> Inr (False, say (ErrKnownHosts (hName h) (hKnownHosts h) FileIsDirectory) g)
           | StatIsFile \<Rightarrow>
               (case knownhostsNew env (hKnownHosts h) of
                  Inl ReadPermission \<Rightarrow>
                    Inr (False, say (ErrKnownHosts (hName h) (hKnownHosts h) PermissionDenied) g)
                | Inl ReadOther \<Rightarrow>
                    Inr (False, say (ErrKnownHosts (hName h) (hKnownHosts h) OtherFailure) g)
                | Inr cb \<Rightarrow> Inr (v, g\<lparr>hostKeysMap := (hostKeysMap g)(hKnownHosts h \<mapsto> cb)\<rparr>))))"

text \<open>The identity block: it may trim the passphrase and may add a signer.\<close>

definition checkIdentity :: "Env \<Rightarrow> Host \<Rightarrow> bool \<Rightarrow> Globals \<Rightarrow> Panic + (bool \<times> Host \<times> Globals)" where
  "checkIdentity env h v g =
     (case identityMap g (hIdentity h) of
        Some sg \<Rightarrow> Inr (v, h, g)
      | None \<Rightarrow>
          (case Stat env (hIdentity h) of
             StatNotExist \<Rightarrow> Inr (False, h, say (ErrIdentity (hName h) (hIdentity h) FileNotFound) g)
           | StatFailed \<Rightarrow> Inl NilDereference
           | StatIsDir \<Rightarrow> Inr (False, h, say (ErrIdentity (hName h) (hIdentity h) FileIsDirectory) g)
           | StatIsFile \<Rightarrow>
               (case ReadFile env (hIdentity h) of
                  Inl ReadPermission \<Rightarrow>
                    Inr (False, h, say (ErrIdentity (hName h) (hIdentity h) PermissionDenied) g)
                | Inl ReadOther \<Rightarrow>
                    Inr (False, h, say (ErrIdentity (hName h) (hIdentity h) OtherFailure) g)
                | Inr key \<Rightarrow>
                    (let h1 = h\<lparr>hPassphrase := TrimSpace (hPassphrase h)\<rparr>;
                         signer = (if hPassphrase h1 \<noteq> []
                                   then ParsePrivateKeyWithPassphrase env key (hPassphrase h1)
                                   else ParsePrivateKey env key)
                     in (case signer of
                           None \<Rightarrow> Inr (False, h1, say (ErrIdentity (hName h) (hIdentity h) CannotDecode) g)
                         | Some sg \<Rightarrow>
                             Inr (v, h1, g\<lparr>identityMap := (identityMap g)(hIdentity h \<mapsto> sg)\<rparr>))))))"

text \<open>The address block.\<close>

definition checkHostAddress :: "Env \<Rightarrow> Host \<Rightarrow> bool \<Rightarrow> Globals \<Rightarrow> bool \<times> Host \<times> Globals" where
  "checkHostAddress env h v g =
     (case hAddress h of
        None \<Rightarrow> (False, h, say (ErrHostAddressRequired (hName h)) g)
      | Some a \<Rightarrow>
          (if IsBlank a then (False, h, say (ErrHostAddressRequired (hName h)) g)
           else (case AddressValidate env ''host'' (hName h) ''address'' (hJumpHost h \<noteq> []) True a of
                   (ok, a') \<Rightarrow> (if \<not> ok then (False, h\<lparr>hAddress := Some a'\<rparr>, g)
                                else (v, h\<lparr>hAddress := Some a'\<rparr>, g)))))"

text \<open>The jump-host block: a host that names itself is an error; any other jump-host
  client loses its known-hosts path.\<close>

definition checkJumpHost :: "Host \<Rightarrow> bool \<Rightarrow> Globals \<Rightarrow> bool \<times> Host \<times> Globals" where
  "checkJumpHost h v g =
     (if hJumpHost h \<noteq> [] then
        (if hJumpHost h = hName h then (False, h, say (ErrJumpHostSelf (hName h)) g)
         else (v, h\<lparr>hKnownHosts := []\<rparr>, g))
      else (v, h, g))"

definition buildConfig :: "Host \<Rightarrow> Globals \<Rightarrow> ClientConfig" where
  "buildConfig h g =
     \<lparr>User = hUsername h, Auth = identityMap g (hIdentity h),
      HostKeyCallbackOf = hostKeysMap g (hKnownHosts h)\<rparr>"

text \<open>The name block: a blank name and a name already registered are errors.\<close>

definition checkHostName :: "Host \<Rightarrow> Globals \<Rightarrow> bool \<times> Globals" where
  "checkHostName h g =
     (let (v1, g1) = (if hName h = [] then (False, say ErrHostNameBlank g) else (True, g))
      in (if Hosts g1 (hName h) \<noteq> None then (False, say (ErrHostRedefined (hName h)) g1)
          else (v1, g1)))"

text \<open>The user-name block: the default is taken only when the verbose flag is set.\<close>

definition defaultUser :: "Env \<Rightarrow> string \<Rightarrow> Host \<Rightarrow> Host" where
  "defaultUser env defaultUsername h =
     (let h1 = h\<lparr>hUsername := TrimSpace (hUsername h)\<rparr>
      in (if TrimSpace (hUsername h1) = [] \<and> verboseFlag env
          then h1\<lparr>hUsername := defaultUsername\<rparr> else h1))"

text \<open>The test for a missing identity path, which comes before the identity block.\<close>

definition checkIdentityGiven :: "Host \<Rightarrow> bool \<Rightarrow> Globals \<Rightarrow> bool \<times> Globals" where
  "checkIdentityGiven h v g =
     (if hIdentity h = [] then (False, say (ErrIdentityMissing (hName h)) g) else (v, g))"

text \<open>\<^verbatim>\<open>Host.Validate(defaultUsername)\<close>: the result, the host after the call and the
  package variables after the call.  The blocks run in the order of the source; the host
  is registered under its trimmed name whatever the result is.\<close>

definition Host_Validate :: "Env \<Rightarrow> string \<Rightarrow> Host \<Rightarrow> Globals \<Rightarrow> Panic + (bool \<times> Host \<times> Globals)" where
  "Host_Validate env defaultUsername h0 g0 =
     (let h1 = h0\<lparr>hName := TrimSpace (hName h0)\<rparr>;
          (v2, g2) = checkHostName h1 g0;
          h3 = defaultUser env defaultUsername h1;
          h4 = h3\<lparr>hKnownHosts := TrimSpace (hKnownHosts h3)\<rparr>
      in (case checkKnownHosts env h4 v2 g2 of
            Inl p \<Rightarrow> Inl p
          | Inr (v3, g3) \<Rightarrow>
              (let h5 = h4\<lparr>hIdentity := TrimSpace (hIdentity h4)\<rparr>;
                   (v4, g4) = checkIdentityGiven h5 v3 g3
               in (case checkIdentity env h5 v4 g4 of
                     Inl p \<Rightarrow> Inl p
                   | Inr (v5, h6, g5) \<Rightarrow>
                       (case checkHostAddress env h6 v5 g5 of
                          (v6, h7, g6) \<Rightarrow>
                            (case checkJumpHost h7 v6 g6 of
                               (v7, h8, g7) \<Rightarrow>
                                 (let h9 = h8\<lparr>config := Some (buildConfig h8 g7)\<rparr>
                                  in Inr (v7, h9, g7\<lparr>Hosts := (Hosts g7)(hName h9 \<mapsto> h9)\<rparr>))))))))"

subsection \<open>\<^verbatim>\<open>Tunnel.Validate\<close>\<close>

text \<open>The host block shared by both versions of \<^verbatim>\<open>Tunnel.Validate\<close>: the trimmed
  host name must be registered, and the registered host is marked as a tunnel target.\<close>

definition checkTunnelHost :: "Tunnel \<Rightarrow> bool \<Rightarrow> Globals \<Rightarrow> bool \<times> Globals" where
  "checkTunnelHost t v g =
     (if tHost t = [] then (False, say (ErrTunnelHostMissing (tName t)) g)
      else (case Hosts g (tHost t) of
              None \<Rightarrow> (False, say (ErrTunnelHostUndefined (tName t) (tHost t)) g)
            | Some host \<Rightarrow> (v, g\<lparr>Hosts := (Hosts g)(tHost t \<mapsto> host\<lparr>isHost := True\<rparr>)\<rparr>)))"

text \<open>The name block shared by both versions.\<close>

definition checkTunnelName :: "Tunnel \<Rightarrow> Globals \<Rightarrow> bool \<times> Globals" where
  "checkTunnelName t g =
     (let (v1, g1) = (if tName t = [] then (False, say ErrTunnelNameBlank g) else (True, g))
      in (if Tunnels g1 (tName t) \<noteq> None then (False, say (ErrTunnelRedefined (tName t)) g1)
          else (v1, g1)))"

text \<open>The forward block of the current version: a nil or blank forward address is an
  error, any other is validated in place.\<close>

definition checkForward :: "Env \<Rightarrow> Tunnel \<Rightarrow> bool \<Rightarrow> Globals \<Rightarrow> bool \<times> Tunnel \<times> Globals" where
  "checkForward env t v g =
     (case tForward t of
        None \<Rightarrow> (False, t, say (ErrForwardRequired (tName t)) g)
      | Some f \<Rightarrow>
          (if IsBlank f then (False, t, say (ErrForwardRequired (tName t)) g)
           else (case AddressValidate env ''tunnel'' (tName t) ''forward address'' True False f of
                   (ok, f') \<Rightarrow> (if \<not> ok then (False, t\<lparr>tForward := Some f'\<rparr>, g)
                                else (v, t\<lparr>tForward := Some f'\<rparr>, g)))))"

text \<open>The defaulting step of the current version (the tunnel file with statistics): a
  nil or blank local address of a tunnel whose forward address is valid is replaced by
  \<^verbatim>\<open>NewAddress(fmt.Sprintf("127.0.0.1:%d", t.Forward.Port()))\<close>.\<close>

definition defaultLocal :: "Tunnel \<Rightarrow> Tunnel" where
  "defaultLocal t =
     (if (case tLocal t of None \<Rightarrow> True | Some l \<Rightarrow> IsBlank l)
         \<and> (case tForward t of None \<Rightarrow> False | Some f \<Rightarrow> IsValid f)
      then (case tForward t of
              None \<Rightarrow> t
            | Some f \<Rightarrow> t\<lparr>tLocal := Some (NewAddress (''127.0.0.1:'' @ itoa (Port f)))\<rparr>)
      else t)"

text \<open>The local block of the current version.  A local address that is still missing
  is reported, and the flag is left as it is.\<close>

definition checkLocal :: "Env \<Rightarrow> Tunnel \<Rightarrow> bool \<Rightarrow> Globals \<Rightarrow> bool \<times> Tunnel \<times> Globals" where
  "checkLocal env t v g =
     (case tLocal t of
        None \<Rightarrow> (v, t, say (ErrLocalMissing (tName t)) g)
      | Some l \<Rightarrow>
          (if IsBlank l then (v, t, say (ErrLocalMissing (tName t)) g)
           else (case AddressValidate env ''tunnel'' (tName t) ''local address'' True False l of
                   (ok, l') \<Rightarrow> (if \<not> ok then (False, t\<lparr>tLocal := Some l'\<rparr>, g)
                                else (v, t\<lparr>tLocal := Some l'\<rparr>, g)))))"

text \<open>\<^verbatim>\<open>Tunnel.Validate()\<close>, current version: the result, the tunnel after the call
  and the package variables after the call.  The tunnel is registered under its trimmed
  name whatever the result is, replacing an entry of the same name.\<close>

definition Tunnel_Validate :: "Env \<Rightarrow> Tunnel \<Rightarrow> Globals \<Rightarrow> bool \<times> Tunnel \<times> Globals" where
  "Tunnel_Validate env t0 g0 =
     (let t1 = t0\<lparr>tName := TrimSpace (tName t0)\<rparr>;
          (v1, g1) = checkTunnelName t1 g0;
          (v2, t2, g2) = checkForward env t1 v1 g1;
          t3 = defaultLocal t2;
          (v3, t4, g3) = checkLocal env t3 v2 g2;
          t5 = t4\<lparr>tHost := TrimSpace (tHost t4)\<rparr>;
          (v4, g4) = checkTunnelHost t5 v3 g3
      in (v4, t5, g4\<lparr>Tunnels := (Tunnels g4)(tName t5 \<mapsto> t5)\<rparr>))"

subsection \<open>\<^verbatim>\<open>Tunnel.Validate\<close>, the earlier version kept in the repository\<close>

text \<open>
  The earlier tunnel file calls the four-argument \<^verbatim>\<open>ValidateAddress\<close> of the address
  file, has no nil tests (a method that reads a field of a nil \<^verbatim>\<open>*Address\<close>
  panics), and defaults the local address to \<^verbatim>\<open>0.0.0.0\<close>.
\<close>

definition checkForwardLegacy :: "resolver \<Rightarrow> Tunnel \<Rightarrow> bool \<Rightarrow> Globals \<Rightarrow> Panic + (bool \<times> Tunnel \<times> Globals)" where
  "checkForwardLegacy lookupIP t v g =
     (case tForward t of
        None \<Rightarrow> Inl NilDereference
      | Some f \<Rightarrow>
          (if IsBlank f then Inr (False, t, say (ErrForwardRequired (tName t)) g)
           else (let f' = ValidateAddress lookupIP True f
                 in (if \<not> valid f' then Inr (False, t\<lparr>tForward := Some f'\<rparr>, g)
                     else Inr (v, t\<lparr>tForward := Some f'\<rparr>, g)))))"

definition defaultLocalLegacy :: "Tunnel \<Rightarrow> Panic + Tunnel" where
  "defaultLocalLegacy t =
     (case tLocal t of
        None \<Rightarrow> Inl NilDereference
      | Some l \<Rightarrow>
          (case tForward t of
             None \<Rightarrow> (if IsBlank l then Inl NilDereference else Inr t)
           | Some f \<Rightarrow>
               (if IsBlank l \<and> IsValid f
                then Inr (t\<lparr>tLocal := Some (NewAddress (''0.0.0.0:'' @ itoa (Port f)))\<rparr>)
                else Inr t)))"

definition checkLocalLegacy :: "resolver \<Rightarrow> Tunnel \<Rightarrow> bool \<Rightarrow> Globals \<Rightarrow> Panic + (bool \<times> Tunnel \<times> Globals)" where
  "checkLocalLegacy lookupIP t v g =
     (case tLocal t of
        None \<Rightarrow> Inl NilDereference
      | Some l \<Rightarrow>
          (if IsBlank l then Inr (v, t, say (ErrLocalMissing (tName t)) g)
           else (let l' = ValidateAddress lookupIP True l
                 in (if \<not> valid l' then Inr (False, t\<lparr>tLocal := Some l'\<rparr>, g)
                     else Inr (v, t\<lparr>tLocal := Some l'\<rparr>, g)))))"

definition Tunnel_Validate_legacy :: "resolver \<Rightarrow> Tunnel \<Rightarrow> Globals \<Rightarrow> Panic + (bool \<times> Tunnel \<times> Globals)" where
  "Tunnel_Validate_legacy lookupIP t0 g0 =
     (let t1 = t0\<lparr>tName := TrimSpace (tName t0)\<rparr>;
          (v1, g1) = checkTunnelName t1 g0
      in (case checkForwardLegacy lookupIP t1 v1 g1 of
            Inl p \<Rightarrow> Inl p
          | Inr (v2, t2, g2) \<Rightarrow>
              (case defaultLocalLegacy t2 of
                 Inl p \<Rightarrow> Inl p
               | Inr t3 \<Rightarrow>
                   (case checkLocalLegacy lookupIP t3 v2 g2 of
                      Inl p \<Rightarrow> Inl p
                    | Inr (v3, t4, g3) \<Rightarrow>
                        (let t5 = t4\<lparr>tHost := TrimSpace (tHost t4)\<rparr>;
                             (v4, g4) = checkTunnelHost t5 v3 g3
                         in Inr (v4, t5, g4\<lparr>Tunnels := (Tunnels g4)(tName t5 \<mapsto> t5)\<rparr>))))))"

subsection \<open>The jump-host resolver \<^verbatim>\<open>validateJumpHosts\<close>\<close>

text \<open>\<^verbatim>\<open>int32(...)\<close> applied to the port the listener reports.\<close>

definition int32 :: "int \<Rightarrow> int" where
  "int32 i = (i + 2 ^ 31) mod 2 ^ 32 - 2 ^ 31"

datatype Flow = Next | Break

text \<open>
  One round of the loop over \<^verbatim>\<open>Hosts\<close>, for the host registered under key \<open>k\<close>.
  The loop state is the flag, the ports of the listeners opened so far (one per
  successful probe, so its length numbers the next probe) and the package variables.
  The synthetic tunnel shares the host's address pointer as its forward address, is
  validated (the result is dropped), and the host's address is then replaced by the
  tunnel's local address.
\<close>

definition jumpTunnelFor :: "Host \<Rightarrow> Host \<Rightarrow> int \<Rightarrow> Tunnel" where
  "jumpTunnelFor h jumpHost p =
     \<lparr>tName = hName jumpHost @ '' jumphost'',
      tLocal = Some (NewAddress (''127.0.0.1:'' @ itoa (int32 p))),
      tHost = hJumpHost h,
      tForward = hAddress h\<rparr>"

definition jumpHostStep :: "Env \<Rightarrow> string \<Rightarrow> bool \<times> int list \<times> Globals \<Rightarrow> Flow \<times> bool \<times> int list \<times> Globals" where
  "jumpHostStep env k s =
     (case s of (v, ls, g) \<Rightarrow>
       (case Hosts g k of
          None \<Rightarrow> (Next, v, ls, g)
        | Some h \<Rightarrow>
            (if hJumpHost h \<noteq> [] \<and> isHost h then
               (case Hosts g (hJumpHost h) of
                  None \<Rightarrow> (Next, False, ls, say (ErrJumpHostUndefined (hName h) (hJumpHost h)) g)
                | Some jumpHost \<Rightarrow>
                    (if hJumpHost jumpHost \<noteq> [] then (Next, False, ls, say (ErrMultiHostJump (hName h)) g)
                     else (case freePort env (length ls) of
                             None \<Rightarrow> (Break, False, ls, g)
                           | Some p \<Rightarrow>
                               (case Tunnel_Validate env (jumpTunnelFor h jumpHost p) g of
                                  (ok, jt, g1) \<Rightarrow>
                                    (case Hosts g1 k of
                                       None \<Rightarrow> (Next, v, ls @ [p], g1)
                                     | Some h1 \<Rightarrow>
                                         (Next, v, ls @ [p],
                                          g1\<lparr>Hosts := (Hosts g1)(k \<mapsto> h1\<lparr>hAddress := tLocal jt\<rparr>)\<rparr>))))))
             else (Next, v, ls, g))))"

fun jumpHostLoop :: "Env \<Rightarrow> string list \<Rightarrow> bool \<times> int list \<times> Globals \<Rightarrow> bool \<times> int list \<times> Globals" where
  "jumpHostLoop env [] s = s"
| "jumpHostLoop env (k # ks) s =
     (case jumpHostStep env k s of
        (Break, s') \<Rightarrow> s'
      | (Next, s') \<Rightarrow> jumpHostLoop env ks s')"

text \<open>Whether the loop gets past all of \<open>ks\<close>: no round for one of them ends the loop
  (a round ends it only on a failed port probe).\<close>

fun loopReaches :: "Env \<Rightarrow> string list \<Rightarrow> bool \<times> int list \<times> Globals \<Rightarrow> bool" where
  "loopReaches env [] s = True"
| "loopReaches env (k # ks) s =
     (case jumpHostStep env k s of
        (Break, s') \<Rightarrow> False
      | (Next, s') \<Rightarrow> loopReaches env ks s')"

text \<open>\<^verbatim>\<open>validateJumpHosts()\<close>.  Go ranges over the map in an order of its own
  choosing; \<open>keys\<close> is that order.\<close>

definition validateJumpHosts :: "Env \<Rightarrow> string list \<Rightarrow> Globals \<Rightarrow> bool \<times> Globals" where
  "validateJumpHosts env keys g = (case jumpHostLoop env keys (True, [], g) of (v, ls, g') \<Rightarrow> (v, g'))"

subsection \<open>\<^verbatim>\<open>Configuration.Validate\<close>\<close>

record Configuration =
  cHosts :: "Host list"
  cTunnels :: "Tunnel list"

fun validateHosts :: "Env \<Rightarrow> string \<Rightarrow> Host list \<Rightarrow> bool \<Rightarrow> Globals \<Rightarrow> Panic + (bool \<times> Globals)" where
  "validateHosts env du [] v g = Inr (v, g)"
| "validateHosts env du (h # hs) v g =
     (case Host_Validate env du h g of
        Inl p \<Rightarrow> Inl p
      | Inr (ok, h', g') \<Rightarrow> validateHosts env du hs (if \<not> ok then False else v) g')"

fun validateTunnels :: "Env \<Rightarrow> Tunnel list \<Rightarrow> bool \<Rightarrow> Globals \<Rightarrow> bool \<times> Globals" where
  "validateTunnels env [] v g = (v, g)"
| "validateTunnels env (t # ts) v g =
     (case Tunnel_Validate env t g of
        (ok, t', g') \<Rightarrow> validateTunnels env ts (if \<not> ok then False else v) g')"

text \<open>The pruning at the end: every host that is neither a tunnel target nor marked as
  a jump host is deleted from the registry.\<close>

definition pruneUnused :: "Globals \<Rightarrow> Globals" where
  "pruneUnused g =
     g\<lparr>Hosts := (\<lambda>k. case Hosts g k of
                        None \<Rightarrow> None
                      | Some h \<Rightarrow> (if \<not> isHost h \<and> \<not> isJumpHost h then None else Some h))\<rparr>"

definition Configuration_Validate :: "Env \<Rightarrow> string \<Rightarrow> string list \<Rightarrow> Configuration \<Rightarrow> Globals \<Rightarrow> Panic + (bool \<times> Globals)" where
  "Configuration_Validate env defaultUsername keys c g =
     (case validateHosts env defaultUsername (cHosts c) True g of
        Inl p \<Rightarrow> Inl p
      | Inr (v1, g1) \<Rightarrow>
          (case validateTunnels env (cTunnels c) v1 g1 of
             (v2, g2) \<Rightarrow>
               (case validateJumpHosts env keys g2 of
                  (v3, g3) \<Rightarrow> Inr (if \<not> v3 then False else v2, pruneUnused g3))))"

section \<open>Statistics: the counters, the relay loop and the wire protocol\<close>

record TunnelStats =
  sName :: string
  sConnections :: int
  sReceived :: int
  sTransmitted :: int

subsection \<open>\<^verbatim>\<open>Tunnel.copy\<close>\<close>

text \<open>
  The counters are \<^verbatim>\<open>int64\<close>; \<open>int64\<close> is the wrap-around of a sum to that
  width.  One round of the loop reads and, when it read something, writes; the outcomes
  of the two calls are the environment of the round: \<open>nr\<close> and \<open>er\<close> from
  \<^verbatim>\<open>src.Read\<close>, \<open>nw\<close> and \<open>ew\<close> from \<^verbatim>\<open>dst.Write\<close> (not looked at when
  nothing was read).  The buffer has 32768 bytes, so slicing it up to a larger \<open>nr\<close>
  panics.
\<close>

definition int64 :: "int \<Rightarrow> int" where
  "int64 i = (i + 2 ^ 63) mod 2 ^ 64 - 2 ^ 63"

datatype IOError = EOF | ErrInvalidWrite | ErrShortWrite | IOFailure string

record CopyIO =
  nr :: int
  er :: "IOError option"
  nw :: int
  ew :: "IOError option"

datatype CopyFlow = Continue | Stop "IOError option" | Crash Panic

text \<open>The end of a round: a read error ends the loop, and only end-of-stream is not
  reported.\<close>

definition readEnd :: "CopyIO \<Rightarrow> CopyFlow" where
  "readEnd io =
     (case er io of
        None \<Rightarrow> Continue
      | Some e \<Rightarrow> (if e \<noteq> EOF then Stop (Some e) else Stop None))"

text \<open>The byte count a round adds to its counter: the count the writer reports, or 0
  when the report is negative or larger than what was handed over.\<close>

definition counted :: "CopyIO \<Rightarrow> int" where
  "counted io = (if nw io < 0 \<or> nr io < nw io then 0 else nw io)"

definition addCount :: "bool \<Rightarrow> int \<Rightarrow> TunnelStats option \<Rightarrow> TunnelStats option" where
  "addCount rd n st =
     (case st of
        None \<Rightarrow> None
      | Some t \<Rightarrow>
          (if rd then Some (t\<lparr>sReceived := int64 (sReceived t + n)\<rparr>)
           else Some (t\<lparr>sTransmitted := int64 (sTransmitted t + n)\<rparr>)))"

definition copyStep :: "bool \<Rightarrow> CopyIO \<Rightarrow> TunnelStats option \<Rightarrow> CopyFlow \<times> TunnelStats option" where
  "copyStep rd io st =
     (if nr io > 0 then
        (if nr io > 32768 then (Crash IndexOutOfRange, st)
         else (let bad = (nw io < 0 \<or> nr io < nw io);
                   ew' = (if bad \<and> ew io = None then Some ErrInvalidWrite else ew io);
                   st' = addCount rd (counted io) st
               in (if ew' \<noteq> None then (Stop ew', st')
                   else if nr io \<noteq> counted io then (Stop (Some ErrShortWrite), st')
                   else (readEnd io, st'))))
      else (readEnd io, st))"


text \<open>The bytes a round really wrote, for a writer that keeps the contract of
  \<^verbatim>\<open>io.Writer\<close> (it reports between 0 and the number of bytes handed over): the reported
  count of a round that wrote at all.\<close>

definition written :: "CopyIO \<Rightarrow> int" where
  "written io = (if 0 < nr io \<and> nr io \<le> 32768 \<and> 0 \<le> nw io \<and> nw io \<le> nr io then nw io else 0)"

subsection \<open>The publisher: \<^verbatim>\<open>writeUpdate\<close>\<close>

definition zeros :: string where
  "zeros = replicate 256 (CHR 0x00)"

text \<open>The two lines that build the frame:
  \<^verbatim>\<open>x := 256 - (len(update) % 256); s.lastUpdate = append(update, zeros[256-x:]...)\<close>.\<close>

definition padUpdate :: "string \<Rightarrow> string" where
  "padUpdate update = (let x = 256 - length update mod 256 in update @ drop (256 - x) zeros)"

text \<open>
  The manager's fields that \<^verbatim>\<open>writeUpdate\<close> touches.  Connections are numbered;
  \<open>wire\<close> holds what each connection has been sent.  Whether the lock is free and
  which writes fail is the environment of the call.
\<close>

record StatsManager =
  connections :: "nat list"
  lastUpdate :: string
  wire :: "nat \<Rightarrow> string"

definition writeUpdate :: "bool \<Rightarrow> (nat \<Rightarrow> bool) \<Rightarrow> string \<Rightarrow> StatsManager \<Rightarrow> StatsManager" where
  "writeUpdate lockTaken writeFails update s =
     (if lockTaken then s
      else (let frame = padUpdate update;
                alive = filter (\<lambda>c. \<not> writeFails c) (connections s);
                s1 = s\<lparr>lastUpdate := frame,
                       wire := (\<lambda>c. if c \<in> set (connections s) \<and> \<not> writeFails c
                                     then wire s c @ frame else wire s c)\<rparr>
            in (if length alive \<noteq> length (connections s) then s1\<lparr>connections := alive\<rparr> else s1)))"

text \<open>The end of the broadcasting task: \<^verbatim>\<open>json.Marshal(tunnelStats)\<close>, and
  \<^verbatim>\<open>writeUpdate\<close> when that gave no error.  The serializer is a parameter.\<close>

definition publish :: "(TunnelStats list \<Rightarrow> string option) \<Rightarrow> bool \<Rightarrow> (nat \<Rightarrow> bool) \<Rightarrow> TunnelStats list \<Rightarrow> StatsManager \<Rightarrow> StatsManager" where
  "publish marshal lockTaken writeFails stats s =
     (case marshal stats of
        None \<Rightarrow> s
      | Some update \<Rightarrow> writeUpdate lockTaken writeFails update s)"

subsection \<open>The subscriber: the loop of \<^verbatim>\<open>receiveStats\<close>\<close>

text \<open>
  \<^verbatim>\<open>json.Unmarshal\<close> into a slice of pointers is a parameter: \<open>None\<close> is the error,
  and an element of the slice may be nil.  One \<^verbatim>\<open>conn.Read\<close> either fails or stores
  some bytes at the start of the 256-byte buffer; the text accumulated in \<open>str\<close> grows by
  the whole buffer.  A read of no bytes indexes the buffer at -1; printing a nil element
  dereferences it.  \<open>printed\<close> lists the tables printed so far, one list of rows each.
\<close>

type_synonym unmarshal = "string \<Rightarrow> TunnelStats option list option"

datatype ReadEvent = ReadFailed | ReadData string

record Subscriber =
  bs :: string
  str :: string
  printed :: "TunnelStats list list"

datatype SubscriberEnd = Disconnected | Panicked Panic | Blocked

definition receiveStep :: "unmarshal \<Rightarrow> string \<Rightarrow> Subscriber \<Rightarrow> Panic + Subscriber" where
  "receiveStep um d s =
     (let n = min (length d) (length (bs s));
          buf = take n d @ drop n (bs s);
          acc = (if n > 0 then str s @ buf else str s)
      in (if n = 0 then Inl IndexOutOfRange
          else if buf ! (n - 1) = CHR 0x00 then
            (case um (takeWhile (\<lambda>c. c \<noteq> CHR 0x00) acc) of
               None \<Rightarrow> Inr (s\<lparr>bs := buf, str := []\<rparr>)
             | Some ts \<Rightarrow>
                 (if list_all (\<lambda>t. t \<noteq> None) ts
                  then Inr (s\<lparr>bs := buf, str := [], printed := printed s @ [map the ts]\<rparr>)
                  else Inl NilDereference))
          else Inr (s\<lparr>bs := buf, str := acc\<rparr>)))"

text \<open>The loop over the reads the connection offers; \<open>Blocked\<close> says that the loop is
  waiting in \<^verbatim>\<open>conn.Read\<close> when the offered reads are used up.\<close>

fun receiveLoop :: "unmarshal \<Rightarrow> ReadEvent list \<Rightarrow> Subscriber \<Rightarrow> SubscriberEnd \<times> Subscriber" where
  "receiveLoop um [] s = (Blocked, s)"
| "receiveLoop um (ReadFailed # es) s = (Disconnected, s)"
| "receiveLoop um (ReadData d # es) s =
     (case receiveStep um d s of
        Inl p \<Rightarrow> (Panicked p, s)
      | Inr s' \<Rightarrow> receiveLoop um es s')"

text \<open>The subscriber as \<^verbatim>\<open>receiveStats\<close> starts its loop.\<close>

definition newSubscriber :: Subscriber where
  "newSubscriber = \<lparr>bs = replicate 256 (CHR 0x00), str = [], printed = []\<rparr>"

text \<open>A byte stream cut into reads of \<open>n\<close> bytes (the last one may be shorter): the
  connection delivering a stream in full buffers.\<close>

function blocksOf :: "nat \<Rightarrow> 'a list \<Rightarrow> 'a list list" where
  "blocksOf n xs = (if n = 0 \<or> xs = [] then [] else take n xs # blocksOf n (drop n xs))"
  by pat_completeness auto
termination
  by (relation "measure (\<lambda>(n, xs). length xs)") auto

declare blocksOf.simps [simp del]

subsection \<open>The publisher: \<^verbatim>\<open>statsBroadcaster\<close>\<close>

text \<open>
  Time is an integer count of nanoseconds.  The broadcaster's state is the flag
  \<^verbatim>\<open>s.updated\<close>, the time of the last broadcast, the number of subscriber
  connections, the wake-up time of the task that sleeps before a broadcast (at most one
  exists, since one is started only when the flag is clear and the flag is cleared only
  by that task), and the times at which broadcasts were made.  The model is sequential:
  the task reads the clock at the moment of the signal, its timer fires exactly, and the
  broadcast itself takes no time.
\<close>

definition second :: int where
  "second = 1000000000"

definition interval :: int where
  "interval = second * 5"

record Broadcaster =
  updated :: bool
  lastBroadcast :: int
  subscribers :: nat
  pending :: "int option"
  emitted :: "int list"

text \<open>\<^verbatim>\<open>lastBroadcast := time.Now().Add(-interval)\<close>, no subscriber yet.\<close>

definition startBroadcaster :: "int \<Rightarrow> Broadcaster" where
  "startBroadcaster now =
     \<lparr>updated = False, lastBroadcast = now - interval, subscribers = 0, pending = None, emitted = []\<rparr>"

text \<open>The case \<^verbatim>\<open><-s.updateChan\<close> of the select loop, at time \<open>now\<close>.\<close>

definition onSignal :: "int \<Rightarrow> Broadcaster \<Rightarrow> Broadcaster" where
  "onSignal now b =
     (if \<not> updated b then
        (let b1 = b\<lparr>updated := True\<rparr>
         in (if subscribers b1 > 0 then
               (let diff = lastBroadcast b1 + interval - now
                in b1\<lparr>pending := Some (if diff > 0 then now + diff else now + second)\<rparr>)
             else b1))
      else b)"

text \<open>The sleeping task when its timer fires at time \<open>t\<close>: it broadcasts, records the
  time and clears the flag.\<close>

definition wake :: "int \<Rightarrow> Broadcaster \<Rightarrow> Broadcaster" where
  "wake t b = b\<lparr>lastBroadcast := t, emitted := emitted b @ [t], updated := False, pending := None\<rparr>"

text \<open>Time passing up to \<open>t\<close>: a timer due by then fires.\<close>

definition elapse :: "int \<Rightarrow> Broadcaster \<Rightarrow> Broadcaster" where
  "elapse t b =
     (case pending b of
        None \<Rightarrow> b
      | Some w \<Rightarrow> (if w \<le> t then wake w b else b))"

datatype Event = Signal int | Connected int | Tick int

text \<open>The broadcaster over a list of time-stamped events: a statistics signal, a
  subscriber being added by \<^verbatim>\<open>addConnection\<close>, or time passing.\<close>

fun runBroadcaster :: "Event list \<Rightarrow> Broadcaster \<Rightarrow> Broadcaster" where
  "runBroadcaster [] b = b"
| "runBroadcaster (Signal t # es) b = runBroadcaster es (onSignal t (elapse t b))"
| "runBroadcaster (Connected t # es) b =
     runBroadcaster es ((elapse t b)\<lparr>subscribers := subscribers (elapse t b) + 1\<rparr>)"
| "runBroadcaster (Tick t # es) b = runBroadcaster es (elapse t b)"

text \<open>The broadcasts made so far are at least one interval apart, none is later than
  the recorded time of the last one, and a sleeping task wakes no sooner than one interval
  after it.\<close>

definition spaced :: "Broadcaster \<Rightarrow> bool" where
  "spaced b =
     (sorted_wrt (\<lambda>x y. x + interval \<le> y) (emitted b)
      \<and> (\<forall>x \<in> set (emitted b). x \<le> lastBroadcast b)
      \<and> (case pending b of None \<Rightarrow> True | Some w \<Rightarrow> lastBroadcast b + interval \<le> w))"

section \<open>An example environment\<close>

text \<open>Where an example needs a concrete \<^verbatim>\<open>Address.Validate\<close>, it takes the
  validation of the address file (the one whose body the repository has), with the
  method's result read from the flag.\<close>

definition legacyAddressValidate :: "resolver \<Rightarrow> string \<Rightarrow> string \<Rightarrow> string \<Rightarrow> bool \<Rightarrow> bool \<Rightarrow> Address \<Rightarrow> bool \<times> Address" where
  "legacyAddressValidate lookupIP grp nm attr remote flag a =
     (let a' = ValidateAddress lookupIP remote a in (valid a', a'))"

text \<open>A stand-in for the order of work inside the library's \<^verbatim>\<open>Client.Dial\<close>: the
  address text is taken apart into host and decimal port (below 65536) first, and the
  session is used only after that.  \<open>hostPortText\<close> recognises the texts with exactly one
  colon and such a port.\<close>

definition hostPortText :: "string \<Rightarrow> bool" where
  "hostPortText a =
     (case Split a CHR '':'' of
        [h, p] \<Rightarrow> p \<noteq> [] \<and> list_all isDigit p \<and> digitsVal 0 p < 65536
      | _ \<Rightarrow> False)"

definition exampleClientDial :: "Client option \<Rightarrow> string \<Rightarrow> Panic + Conn option" where
  "exampleClientDial c a =
     (if \<not> hostPortText a then Inr None
      else (case c of
              None \<Rightarrow> Inl NilDereference
            | Some s \<Rightarrow> Inr (Some (Conn a))))"

text \<open>An environment in which the identity file and the known-hosts file exist and load,
  every name resolves, every probe finds a port, every session is established, and a
  session dials every address that \<open>hostPortText\<close> recognises.\<close>

definition exampleEnv :: Env where
  "exampleEnv =
     \<lparr>Stat = (\<lambda>p. if p = ''/keys/id'' \<or> p = ''/keys/known_hosts'' then StatIsFile else StatNotExist),
      knownhostsNew = (\<lambda>p. Inr (KnownHostsFile p)),
      ReadFile = (\<lambda>p. Inr ''PEM''),
      ParsePrivateKey = (\<lambda>key. Some (Signer key)),
      ParsePrivateKeyWithPassphrase = (\<lambda>key pass. Some (Signer key)),
      AddressValidate = legacyAddressValidate literalResolver,
      freePort = (\<lambda>n. Some (40000 + int n)),
      verboseFlag = False,
      sshDial = (\<lambda>a c. Some (Client a)),
      clientDial = exampleClientDial\<rparr>"

text \<open>A host record as the configuration file gives it: name, address text and jump
  host; the other fields are the same in every example.\<close>

definition exampleHost :: "string \<Rightarrow> string \<Rightarrow> string \<Rightarrow> Host" where
  "exampleHost nm addr jump =
     \<lparr>hName = nm, hAddress = Some (NewAddress addr), hUsername = ''ops'',
      hIdentity = ''/keys/id'', hPassphrase = [], hKnownHosts = ''/keys/known_hosts'',
      hJumpHost = jump, isHost = False, isJumpHost = False, client = None, config = None\<rparr>"

text \<open>A tunnel record with no local address.\<close>

definition exampleTunnel :: "string \<Rightarrow> string \<Rightarrow> string \<Rightarrow> Tunnel" where
  "exampleTunnel nm host fwd =
     \<lparr>tName = nm, tLocal = None, tHost = host, tForward = Some (NewAddress fwd)\<rparr>"

text \<open>The scenario of the specification: host A without a jump host, host B behind jump
  host A, and one tunnel to B.\<close>

definition exampleConfig :: Configuration where
  "exampleConfig =
     \<lparr>cHosts = [exampleHost ''A'' ''192.0.2.10:22'' [], exampleHost ''B'' ''10.0.0.7:22'' ''A''],
      cTunnels = [exampleTunnel ''T1'' ''B'' ''10.0.0.5:80'']\<rparr>"

text \<open>A chain A, B, C of jump hosts in which only C is a tunnel target.\<close>

definition unusedChainConfig :: Configuration where
  "unusedChainConfig =
     \<lparr>cHosts = [exampleHost ''A'' ''10.0.0.7:22'' ''B'', exampleHost ''B'' ''10.0.0.8:22'' ''C'',
                exampleHost ''C'' ''192.0.2.10:22'' []],
      cTunnels = [exampleTunnel ''T1'' ''C'' ''10.0.0.5:80'']\<rparr>"

text \<open>The same chain with the tunnel pointing at A.\<close>

definition usedChainConfig :: Configuration where
  "usedChainConfig =
     \<lparr>cHosts = [exampleHost ''A'' ''10.0.0.7:22'' ''B'', exampleHost ''B'' ''10.0.0.8:22'' ''C'',
                exampleHost ''C'' ''192.0.2.10:22'' []],
      cTunnels = [exampleTunnel ''T1'' ''A'' ''10.0.0.5:80'']\<rparr>"

text \<open>The package variables after the first two loops of \<^verbatim>\<open>Configuration.Validate\<close>
  (all hosts, then all tunnels), from the initial ones.\<close>

definition validatedRegistry :: "Env \<Rightarrow> string \<Rightarrow> Configuration \<Rightarrow> Globals" where
  "validatedRegistry env defaultUsername c =
     (case validateHosts env defaultUsername (cHosts c) True initialGlobals of
        Inl p \<Rightarrow> initialGlobals
      | Inr (v1, g1) \<Rightarrow> snd (validateTunnels env (cTunnels c) v1 g1))"

text \<open>Two hosts B and C behind the same jump host A, and a tunnel to each.\<close>

definition sharedJumpConfig :: Configuration where
  "sharedJumpConfig =
     \<lparr>cHosts = [exampleHost ''A'' ''192.0.2.10:22'' [], exampleHost ''B'' ''10.0.0.7:22'' ''A'',
                exampleHost ''C'' ''10.0.0.8:22'' ''A''],
      cTunnels = [exampleTunnel ''T1'' ''B'' ''10.0.0.5:80'', exampleTunnel ''T2'' ''C'' ''10.0.0.6:81'']\<rparr>"

text \<open>The example environment with a port probe that never finds a listener, and a
  configuration for it: B is behind jump host A, and X is behind Y, which is itself behind
  A; B and X are tunnel targets.\<close>

definition noPortEnv :: Env where
  "noPortEnv = exampleEnv\<lparr>freePort := (\<lambda>n. None)\<rparr>"

definition brokenProbeConfig :: Configuration where
  "brokenProbeConfig =
     \<lparr>cHosts = [exampleHost ''A'' ''192.0.2.10:22'' [], exampleHost ''B'' ''10.0.0.7:22'' ''A'',
                exampleHost ''Y'' ''10.0.0.8:22'' ''A'', exampleHost ''X'' ''10.0.0.9:22'' ''Y''],
      cTunnels = [exampleTunnel ''T1'' ''B'' ''10.0.0.5:80'', exampleTunnel ''T2'' ''X'' ''10.0.0.6:81'']\<rparr>"

text \<open>The package variables after the whole of \<^verbatim>\<open>Configuration.Validate\<close>, from the
  initial ones.\<close>

definition validatedGlobals :: "Env \<Rightarrow> string \<Rightarrow> string list \<Rightarrow> Configuration \<Rightarrow> Globals" where
  "validatedGlobals env defaultUsername keys c =
     (case Configuration_Validate env defaultUsername keys c initialGlobals of
        Inl p \<Rightarrow> initialGlobals
      | Inr (v, g) \<Rightarrow> g)"

text \<open>A serializer and a parser for examples that know two texts: the one of an empty
  list and the one of the list holding \<open>exampleStats\<close>.\<close>

definition exampleStats :: TunnelStats where
  "exampleStats = \<lparr>sName = ''T1'', sConnections = 1, sReceived = 10, sTransmitted = 20\<rparr>"

definition exampleMarshal :: "TunnelStats list \<Rightarrow> string option" where
  "exampleMarshal ts =
     (if ts = [] then Some ''null''
      else if ts = [exampleStats] then Some ''[T1,1,10,20]''
      else None)"

definition exampleUnmarshal :: unmarshal where
  "exampleUnmarshal b =
     (if b = ''null'' then Some []
      else if b = ''[T1,1,10,20]'' then Some [Some exampleStats]
      else None)"

section \<open>Predicates on the host registry\<close>

text \<open>\<^verbatim>\<open>Host.Validate\<close> registers every host under its trimmed name and no code
  changes a name afterwards, so in every registry the program builds each entry is keyed
  by its own name and the key is trimmed.\<close>

definition registryKeyed :: "Globals \<Rightarrow> bool" where
  "registryKeyed g = (\<forall>k h. Hosts g k = Some h \<longrightarrow> hName h = k \<and> TrimSpace k = k)"

text \<open>The host registered under \<open>k\<close> is a tunnel target, names a jump host that is
  registered, and that jump host names a jump host itself.\<close>

definition chained :: "Globals \<Rightarrow> string \<Rightarrow> bool" where
  "chained g k =
     (case Hosts g k of
        None \<Rightarrow> False
      | Some h \<Rightarrow>
          isHost h \<and> hJumpHost h \<noteq> []
          \<and> (case Hosts g (hJumpHost h) of None \<Rightarrow> False | Some j \<Rightarrow> hJumpHost j \<noteq> []))"

text \<open>Every host registered in \<open>g\<close> is still registered in \<open>g'\<close> under the same
  key, with the same name and jump host, and still a tunnel target if it was one.\<close>

definition hostsKept :: "Globals \<Rightarrow> Globals \<Rightarrow> bool" where
  "hostsKept g g' =
     (\<forall>x. case Hosts g x of
            None \<Rightarrow> Hosts g' x = None
          | Some hx \<Rightarrow> (\<exists>hx'. Hosts g' x = Some hx' \<and> hJumpHost hx' = hJumpHost hx
                          \<and> hName hx' = hName hx \<and> (isHost hx \<longrightarrow> isHost hx')))"

section \<open>Unfolding rules for the examples\<close>

lemmas string_eval =
  TrimSpace_def isSpace_def Atoi_def isDigit_def digitVal_def itoa_def natDec.simps digitChar_def

lemmas address_eval =
  ValidateAddress_def NewAddress_def literalResolver_def failingResolver_def resolveStep_def
  portStep_def IsBlank_def IsValid_def Port_def legacyAddressValidate_def

lemmas host_eval =
  Host_Validate_def checkHostName_def defaultUser_def checkIdentityGiven_def checkKnownHosts_def checkIdentity_def checkHostAddress_def
  checkJumpHost_def buildConfig_def say_def initialGlobals_def exampleEnv_def exampleHost_def
  exampleConfig_def unusedChainConfig_def usedChainConfig_def validatedRegistry_def
  Configuration_Validate_def validateJumpHosts_def jumpHostStep_def jumpTunnelFor_def pruneUnused_def
  int32_def

lemmas tunnel_eval =
  Tunnel_Validate_def checkTunnelName_def checkForward_def defaultLocal_def checkLocal_def
  checkTunnelHost_def exampleTunnel_def Tunnel_Validate_legacy_def checkForwardLegacy_def
  defaultLocalLegacy_def checkLocalLegacy_def

lemmas all_eval = string_eval address_eval host_eval tunnel_eval Let_def

lemmas copy_eval = copyStep_def addCount_def counted_def readEnd_def int64_def written_def
  exampleStats_def Let_def

lemmas broadcaster_eval = startBroadcaster_def onSignal_def wake_def elapse_def interval_def
  second_def Let_def

section \<open>Properties of the string functions\<close>

lemma dropWhile_rev_nonempty:
  assumes "xs \<noteq> []" and "\<not> P (hd xs)"
  shows "dropWhile P (rev xs) \<noteq> [] \<and> hd (rev (dropWhile P (rev xs))) = hd xs"
proof -
  obtain x ys where xs: "xs = x # ys" using assms(1) by (cases xs) auto
  have nP: "\<not> P x" using assms(2) xs by simp
  have "dropWhile P (rev ys @ [x]) = dropWhile P (rev ys) @ [x]"
    using nP by (simp add: dropWhile_append3)
  then show ?thesis using xs by simp
qed

lemma hd_dropWhile_not: "dropWhile P xs \<noteq> [] \<Longrightarrow> \<not> P (hd (dropWhile P xs))"
  by (rule hd_dropWhile)

lemma TrimSpace_hd:
  assumes "TrimSpace s \<noteq> []"
  shows "\<not> isSpace (hd (TrimSpace s)) \<and> \<not> isSpace (last (TrimSpace s))"
proof -
  let ?d = "dropWhile isSpace s"
  have d: "?d \<noteq> []"
  proof
    assume e: "?d = []"
    have "TrimSpace s = []" by (simp only: TrimSpace_def e rev.simps dropWhile.simps)
    with assms show False by simp
  qed
  then have nh: "\<not> isSpace (hd ?d)" by (rule hd_dropWhile)
  from dropWhile_rev_nonempty [of "?d" isSpace, OF d nh]
  have r: "dropWhile isSpace (rev ?d) \<noteq> []" and h: "hd (TrimSpace s) = hd ?d"
    by (simp_all add: TrimSpace_def)
  have "last (TrimSpace s) = hd (dropWhile isSpace (rev ?d))"
    using r by (simp add: TrimSpace_def last_rev)
  moreover have "\<not> isSpace (hd (dropWhile isSpace (rev ?d)))" using r by (rule hd_dropWhile)
  ultimately show ?thesis using nh h by simp
qed

lemma dropWhile_hd_id:
  assumes "xs \<noteq> []" and "\<not> P (hd xs)"
  shows "dropWhile P xs = xs"
  using assms by (cases xs) auto

lemma TrimSpace_fixed:
  assumes "s \<noteq> []" and "\<not> isSpace (hd s)" and "\<not> isSpace (last s)"
  shows "TrimSpace s = s"
proof -
  have 1: "dropWhile isSpace s = s" using assms(1,2) by (rule dropWhile_hd_id)
  have "rev s \<noteq> []" "hd (rev s) = last s" using assms(1) by (simp_all add: hd_rev)
  then have 2: "dropWhile isSpace (rev s) = rev s" using assms(3) by (intro dropWhile_hd_id) simp_all
  show ?thesis by (simp add: TrimSpace_def 1 2)
qed

lemma TrimSpace_idem: "TrimSpace (TrimSpace s) = TrimSpace s"
proof (cases "TrimSpace s = []")
  case True
  have "TrimSpace [] = []" by (simp add: TrimSpace_def)
  with True show ?thesis by (simp only:)
next
  case False
  from TrimSpace_hd [OF False] False show ?thesis by (simp add: TrimSpace_fixed)
qed

lemma TrimSpace_jumphost:
  assumes "TrimSpace n = n" and "n \<noteq> []"
  shows "TrimSpace (n @ '' jumphost'') = n @ '' jumphost''"
proof -
  have "TrimSpace n \<noteq> []" using assms by simp
  from TrimSpace_hd [OF this] have "\<not> isSpace (hd n)" using assms(1) by simp
  then have "\<not> isSpace (hd (n @ '' jumphost''))" using assms(2) by simp
  moreover have "\<not> isSpace (last (n @ '' jumphost''))" by (simp add: isSpace_def)
  ultimately show ?thesis by (intro TrimSpace_fixed) simp_all
qed

section \<open>Properties of address validation\<close>

text \<open>What validation does guarantee about the port of an address it marks valid:
  the upper bound is 65536.\<close>

lemma ValidateAddress_valid_port:
  assumes "valid (ValidateAddress lookupIP remote a)"
  shows "1 \<le> port (ValidateAddress lookupIP remote a) \<and> port (ValidateAddress lookupIP remote a) \<le> 65536"
  using assms
  by (auto simp: ValidateAddress_def Let_def portStep_def split: if_splits option.splits)

text \<open>
  Claim C6 says that an address marked valid is a complete ip:port pair with a port between
  1 and 65535, and that any port outside that range makes the address invalid.  The code
  does not do this: port 65536 passes the range test \<^verbatim>\<open>i < 1 || i > 65536\<close>, and a
  remote address whose name does not resolve keeps its whole text as the host part, so
  that the port is appended a second time.  Both results are marked valid.
\<close>

theorem ValidateAddress_accepts_out_of_range:
  "ValidateAddress literalResolver True (NewAddress ''10.0.0.5:65536'')
     = \<lparr>valid = True, address = ''10.0.0.5:65536'', port = 65536\<rparr>
   \<and> ValidateAddress failingResolver True (NewAddress ''db.internal:80'')
     = \<lparr>valid = True, address = ''db.internal:80:80'', port = 80\<rparr>"
  by (simp add: string_eval address_eval)

section \<open>Properties of tunnel validation\<close>

lemma Tunnel_Validate_local:
  assumes "case tLocal t of None \<Rightarrow> True | Some l \<Rightarrow> IsBlank l"
      and "tForward t = Some f" and "\<not> IsBlank f"
      and "AddressValidate env ''tunnel'' (TrimSpace (tName t)) ''forward address'' True False f = (ok, f')"
      and "IsValid f'"
  shows "tLocal (fst (snd (Tunnel_Validate env t g)))
       = Some (snd (AddressValidate env ''tunnel'' (TrimSpace (tName t)) ''local address'' True False
                      (NewAddress (''127.0.0.1:'' @ itoa (Port f')))))"
  using assms
  by (auto simp: Tunnel_Validate_def checkForward_def defaultLocal_def checkLocal_def Let_def
                 IsBlank_def NewAddress_def
           split: prod.splits option.splits if_splits)

lemma Tunnel_Validate_legacy_local:
  assumes "tLocal t = Some l" and "IsBlank l"
      and "tForward t = Some f" and "\<not> IsBlank f"
      and "IsValid (ValidateAddress lookupIP True f)"
  shows "\<exists>v t' g'. Tunnel_Validate_legacy lookupIP t g = Inr (v, t', g')
        \<and> tLocal t' = Some (ValidateAddress lookupIP True
                      (NewAddress (''0.0.0.0:'' @ itoa (Port (ValidateAddress lookupIP True f)))))"
  using assms
  by (auto simp: Tunnel_Validate_legacy_def checkForwardLegacy_def defaultLocalLegacy_def
                 checkLocalLegacy_def Let_def IsBlank_def IsValid_def NewAddress_def
           split: prod.splits option.splits if_splits)

text \<open>
  Claim C7 as stated: a tunnel record with no local address and a valid forward address gets
  the local address 0.0.0.0 with the forward port.  The current \<^verbatim>\<open>Tunnel.Validate\<close>
  gives 127.0.0.1 with the forward port instead: for the tunnel T1 with forward address
  10.0.0.5:80 and no local address the local address becomes 127.0.0.1:80.
\<close>

theorem Tunnel_Validate_default_local_counterexample:
  "map_option address (tLocal (fst (snd (Tunnel_Validate exampleEnv
        (exampleTunnel ''T1'' ''A'' ''10.0.0.5:80'') initialGlobals))))
     = Some ''127.0.0.1:80''
   \<and> map_option address (tLocal (fst (snd (Tunnel_Validate exampleEnv
        (exampleTunnel ''T1'' ''A'' ''10.0.0.5:80'') initialGlobals))))
     \<noteq> Some ''0.0.0.0:80''"
  by (simp add: string_eval address_eval host_eval tunnel_eval Let_def)

text \<open>
  Claim C7 as amended.  In the current \<^verbatim>\<open>Tunnel.Validate\<close>, a tunnel whose local
  address is nil or blank and whose forward address is valid after its validation gets the
  local address made from 127.0.0.1 and the forward port, which is then validated like a
  configured one.  In the earlier \<^verbatim>\<open>Tunnel.Validate\<close>, a tunnel whose local address is
  present and blank gets the local address made from 0.0.0.0 and the forward port, which
  is then validated.
\<close>

theorem Tunnel_Validate_default_local:
  "((case tLocal t of None \<Rightarrow> True | Some l \<Rightarrow> IsBlank l) \<and> tForward t = Some f \<and> \<not> IsBlank f
      \<and> AddressValidate env ''tunnel'' (TrimSpace (tName t)) ''forward address'' True False f = (ok, f')
      \<and> IsValid f'
    \<longrightarrow> tLocal (fst (snd (Tunnel_Validate env t g)))
          = Some (snd (AddressValidate env ''tunnel'' (TrimSpace (tName t)) ''local address'' True False
                         (NewAddress (''127.0.0.1:'' @ itoa (Port f'))))))
   \<and> (tLocal t = Some l \<and> IsBlank l \<and> tForward t = Some f \<and> \<not> IsBlank f
      \<and> IsValid (ValidateAddress lookupIP True f)
    \<longrightarrow> (\<exists>v t' g'. Tunnel_Validate_legacy lookupIP t g = Inr (v, t', g')
          \<and> tLocal t' = Some (ValidateAddress lookupIP True
                      (NewAddress (''0.0.0.0:'' @ itoa (Port (ValidateAddress lookupIP True f)))))))"
  using Tunnel_Validate_local [of t f env ok f' g] Tunnel_Validate_legacy_local [of t l f lookupIP g]
  by blast

theorem Tunnel_Validate_default_local_witness:
  "IsBlank (NewAddress [])
   \<and> \<not> IsBlank (NewAddress ''10.0.0.5:80'')
   \<and> IsValid (ValidateAddress literalResolver True (NewAddress ''10.0.0.5:80''))
   \<and> map_option address (tLocal (fst (snd (Tunnel_Validate exampleEnv
         ((exampleTunnel ''T1'' ''A'' ''10.0.0.5:80'')\<lparr>tLocal := Some (NewAddress [])\<rparr>) initialGlobals))))
       = Some ''127.0.0.1:80''
   \<and> (\<exists>v t' g'. Tunnel_Validate_legacy literalResolver
         ((exampleTunnel ''T1'' ''A'' ''10.0.0.5:80'')\<lparr>tLocal := Some (NewAddress [])\<rparr>) initialGlobals
           = Inr (v, t', g')
        \<and> map_option address (tLocal t') = Some ''0.0.0.0:80'')"
  using Tunnel_Validate_default_local
    [of "(exampleTunnel ''T1'' ''A'' ''10.0.0.5:80'')\<lparr>tLocal := Some (NewAddress [])\<rparr>"
        "NewAddress ''10.0.0.5:80''" exampleEnv True
        "\<lparr>valid = True, address = ''10.0.0.5:80'', port = 80\<rparr>"
        initialGlobals "NewAddress []" literalResolver]
  by (simp add: string_eval address_eval exampleEnv_def exampleTunnel_def) fastforce

section \<open>Properties of the host connection manager\<close>






section \<open>Properties of host validation\<close>

lemma checkHostName_frame:
  assumes "checkHostName h g = (v, g')"
  shows "hostKeysMap g' = hostKeysMap g \<and> Hosts g' = Hosts g \<and> Tunnels g' = Tunnels g"
  using assms by (auto simp: checkHostName_def say_def Let_def split: if_splits)

lemma defaultUser_frame:
  "hJumpHost (defaultUser env du h) = hJumpHost h \<and> hName (defaultUser env du h) = hName h
   \<and> hKnownHosts (defaultUser env du h) = hKnownHosts h"
  by (simp add: defaultUser_def Let_def)

lemma checkIdentityGiven_frame:
  assumes "checkIdentityGiven h v g = (v', g')"
  shows "hostKeysMap g' = hostKeysMap g \<and> Hosts g' = Hosts g \<and> Tunnels g' = Tunnels g"
  using assms by (auto simp: checkIdentityGiven_def say_def split: if_splits)

lemma checkKnownHosts_default:
  assumes "checkKnownHosts env h v g = Inr (v', g')" and "hostKeysMap g [] = Some AcceptAnyKey"
  shows "hostKeysMap g' [] = Some AcceptAnyKey"
  using assms
  by (auto simp: checkKnownHosts_def say_def
           split: option.splits StatResult.splits sum.splits ReadError.splits)

lemma checkIdentity_frame:
  assumes "checkIdentity env h v g = Inr (v', h', g')"
  shows "hostKeysMap g' = hostKeysMap g \<and> hJumpHost h' = hJumpHost h \<and> hName h' = hName h
         \<and> hKnownHosts h' = hKnownHosts h \<and> Hosts g' = Hosts g"
  using assms
  by (auto simp: checkIdentity_def say_def Let_def
           split: option.splits StatResult.splits sum.splits ReadError.splits if_splits)

lemma checkHostAddress_frame:
  assumes "checkHostAddress env h v g = (v', h', g')"
  shows "hostKeysMap g' = hostKeysMap g \<and> hJumpHost h' = hJumpHost h \<and> hName h' = hName h
         \<and> hKnownHosts h' = hKnownHosts h \<and> Hosts g' = Hosts g"
  using assms
  by (auto simp: checkHostAddress_def say_def split: option.splits if_splits prod.splits)

lemma checkJumpHost_other:
  assumes "checkJumpHost h v g = (v', h', g')" and "hJumpHost h \<noteq> []" and "hJumpHost h \<noteq> hName h"
  shows "hKnownHosts h' = [] \<and> hostKeysMap g' = hostKeysMap g \<and> v' = v \<and> hName h' = hName h"
  using assms by (auto simp: checkJumpHost_def)

lemma checkJumpHost_self:
  assumes "checkJumpHost h v g = (v', h', g')" and "hJumpHost h \<noteq> []" and "hJumpHost h = hName h"
  shows "\<not> v' \<and> console g' = console g @ [ErrJumpHostSelf (hName h)]"
  using assms by (auto simp: checkJumpHost_def say_def)

text \<open>A returning run of Host.Validate, block by block.\<close>

lemma Host_Validate_blocks:
  assumes "Host_Validate env du h0 g0 = Inr (v, h', g')"
  shows "\<exists>v2 g2 v3 g3 v4 g4 v5 h6 g5 v6 h7 g6 h8 g7.
     checkHostName (h0\<lparr>hName := TrimSpace (hName h0)\<rparr>) g0 = (v2, g2)
   \<and> checkKnownHosts env ((defaultUser env du (h0\<lparr>hName := TrimSpace (hName h0)\<rparr>))
        \<lparr>hKnownHosts := TrimSpace (hKnownHosts (defaultUser env du (h0\<lparr>hName := TrimSpace (hName h0)\<rparr>)))\<rparr>) v2 g2 = Inr (v3, g3)
   \<and> checkIdentityGiven ((defaultUser env du (h0\<lparr>hName := TrimSpace (hName h0)\<rparr>))
        \<lparr>hKnownHosts := TrimSpace (hKnownHosts (defaultUser env du (h0\<lparr>hName := TrimSpace (hName h0)\<rparr>))),
          hIdentity := TrimSpace (hIdentity (defaultUser env du (h0\<lparr>hName := TrimSpace (hName h0)\<rparr>)))\<rparr>) v3 g3 = (v4, g4)
   \<and> checkIdentity env ((defaultUser env du (h0\<lparr>hName := TrimSpace (hName h0)\<rparr>))
        \<lparr>hKnownHosts := TrimSpace (hKnownHosts (defaultUser env du (h0\<lparr>hName := TrimSpace (hName h0)\<rparr>))),
          hIdentity := TrimSpace (hIdentity (defaultUser env du (h0\<lparr>hName := TrimSpace (hName h0)\<rparr>)))\<rparr>) v4 g4 = Inr (v5, h6, g5)
   \<and> checkHostAddress env h6 v5 g5 = (v6, h7, g6)
   \<and> checkJumpHost h7 v6 g6 = (v, h8, g7)
   \<and> h' = h8\<lparr>config := Some (buildConfig h8 g7)\<rparr>
   \<and> g' = g7\<lparr>Hosts := (Hosts g7)(hName h8 \<mapsto> h')\<rparr>"
  using assms
  by (auto simp add: Host_Validate_def Let_def split: prod.splits sum.splits)

text \<open>
  Claim C10: a host whose jump host is non-empty and differs from its own (trimmed) name
  leaves \<^verbatim>\<open>Host.Validate\<close> with an empty known-hosts path, and the client configuration
  built for it carries the callback registered for the empty path, the one that accepts
  any server key.  The callback for the empty path is the initial entry of the host-key
  table and validation never replaces it.
\<close>

theorem Host_Validate_clears_known_hosts:
  assumes "Host_Validate env du h g = Inr (v, h', g')"
      and "hJumpHost h \<noteq> []" and "hJumpHost h \<noteq> TrimSpace (hName h)"
      and "hostKeysMap g [] = Some AcceptAnyKey"
  shows "hKnownHosts h' = []
         \<and> (\<exists>cfg. config h' = Some cfg \<and> HostKeyCallbackOf cfg = Some AcceptAnyKey)
         \<and> hostKeysMap g' [] = Some AcceptAnyKey"
proof -
  from Host_Validate_blocks [OF assms(1)] obtain v2 g2 v3 g3 v4 g4 v5 h6 g5 v6 h7 g6 h8 g7 where
    b: "checkHostName (h\<lparr>hName := TrimSpace (hName h)\<rparr>) g = (v2, g2)"
       "checkKnownHosts env ((defaultUser env du (h\<lparr>hName := TrimSpace (hName h)\<rparr>))
        \<lparr>hKnownHosts := TrimSpace (hKnownHosts (defaultUser env du (h\<lparr>hName := TrimSpace (hName h)\<rparr>)))\<rparr>) v2 g2 = Inr (v3, g3)"
       "checkIdentityGiven ((defaultUser env du (h\<lparr>hName := TrimSpace (hName h)\<rparr>))
        \<lparr>hKnownHosts := TrimSpace (hKnownHosts (defaultUser env du (h\<lparr>hName := TrimSpace (hName h)\<rparr>))),
          hIdentity := TrimSpace (hIdentity (defaultUser env du (h\<lparr>hName := TrimSpace (hName h)\<rparr>)))\<rparr>) v3 g3 = (v4, g4)"
       "checkIdentity env ((defaultUser env du (h\<lparr>hName := TrimSpace (hName h)\<rparr>))
        \<lparr>hKnownHosts := TrimSpace (hKnownHosts (defaultUser env du (h\<lparr>hName := TrimSpace (hName h)\<rparr>))),
          hIdentity := TrimSpace (hIdentity (defaultUser env du (h\<lparr>hName := TrimSpace (hName h)\<rparr>)))\<rparr>) v4 g4 = Inr (v5, h6, g5)"
       "checkHostAddress env h6 v5 g5 = (v6, h7, g6)"
       "checkJumpHost h7 v6 g6 = (v, h8, g7)"
       "h' = h8\<lparr>config := Some (buildConfig h8 g7)\<rparr>"
       "g' = g7\<lparr>Hosts := (Hosts g7)(hName h8 \<mapsto> h')\<rparr>"
    by blast
  have k2: "hostKeysMap g2 [] = Some AcceptAnyKey"
    using checkHostName_frame [OF b(1)] assms(4) by simp
  have k3: "hostKeysMap g3 [] = Some AcceptAnyKey"
    using checkKnownHosts_default [OF b(2) k2] .
  have k4: "hostKeysMap g4 [] = Some AcceptAnyKey"
    using checkIdentityGiven_frame [OF b(3)] k3 by simp
  have f5: "hostKeysMap g5 [] = Some AcceptAnyKey" "hJumpHost h6 = hJumpHost h" "hName h6 = TrimSpace (hName h)"
    using checkIdentity_frame [OF b(4)] k4 by (simp_all add: defaultUser_frame)
  have f6: "hostKeysMap g6 [] = Some AcceptAnyKey" "hJumpHost h7 = hJumpHost h" "hName h7 = TrimSpace (hName h)"
    using checkHostAddress_frame [OF b(5)] f5 by simp_all
  have f7: "hKnownHosts h8 = []" "hostKeysMap g7 [] = Some AcceptAnyKey"
    using checkJumpHost_other [OF b(6)] f6 assms(2,3) by simp_all
  show ?thesis using f7 b(7,8) by (simp add: buildConfig_def)
qed

theorem Host_Validate_clears_known_hosts_witness:
  "hJumpHost (exampleHost ''B'' ''10.0.0.7:22'' ''A'') \<noteq> []
   \<and> hJumpHost (exampleHost ''B'' ''10.0.0.7:22'' ''A'') \<noteq> TrimSpace (hName (exampleHost ''B'' ''10.0.0.7:22'' ''A''))
   \<and> hKnownHosts (exampleHost ''B'' ''10.0.0.7:22'' ''A'') = ''/keys/known_hosts''
   \<and> hostKeysMap initialGlobals [] = Some AcceptAnyKey
   \<and> (\<exists>v h' g'. Host_Validate exampleEnv ''me'' (exampleHost ''B'' ''10.0.0.7:22'' ''A'') initialGlobals
                   = Inr (v, h', g')
        \<and> hKnownHosts h' = []
        \<and> (\<exists>cfg. config h' = Some cfg \<and> HostKeyCallbackOf cfg = Some AcceptAnyKey))"
proof -
  have "\<exists>v h' g'. Host_Validate exampleEnv ''me'' (exampleHost ''B'' ''10.0.0.7:22'' ''A'') initialGlobals
                   = Inr (v, h', g')"
    by (auto simp add: string_eval address_eval host_eval Let_def)
  then obtain v h' g' where
    r: "Host_Validate exampleEnv ''me'' (exampleHost ''B'' ''10.0.0.7:22'' ''A'') initialGlobals
          = Inr (v, h', g')"
    by blast
  have pre: "hJumpHost (exampleHost ''B'' ''10.0.0.7:22'' ''A'') \<noteq> []"
    "hJumpHost (exampleHost ''B'' ''10.0.0.7:22'' ''A'') \<noteq> TrimSpace (hName (exampleHost ''B'' ''10.0.0.7:22'' ''A''))"
    "hKnownHosts (exampleHost ''B'' ''10.0.0.7:22'' ''A'') = ''/keys/known_hosts''"
    "hostKeysMap initialGlobals [] = Some AcceptAnyKey"
    by (simp_all add: exampleHost_def initialGlobals_def string_eval)
  from Host_Validate_clears_known_hosts [OF r pre(1) pre(2) pre(4)] r pre
  show ?thesis by blast
qed

lemma natDec_digit: "n < 10 \<Longrightarrow> natDec n = [digitChar n]"
  by (simp add: natDec.simps)

lemma natDec_step: "10 \<le> n \<Longrightarrow> natDec n = natDec (n div 10) @ [digitChar (n mod 10)]"
  by (subst natDec.simps) simp

section \<open>Properties of the jump-host resolver\<close>

lemma checkTunnelName_frame:
  assumes "checkTunnelName t g = (v, g')"
  shows "Hosts g' = Hosts g \<and> Tunnels g' = Tunnels g \<and> hostKeysMap g' = hostKeysMap g
         \<and> (\<exists>ms. console g' = console g @ ms)"
  using assms by (auto simp: checkTunnelName_def say_def Let_def split: if_splits)

lemma checkForward_result:
  assumes "checkForward env t v g = (v', t', g')"
  shows "Hosts g' = Hosts g \<and> Tunnels g' = Tunnels g \<and> (\<exists>ms. console g' = console g @ ms)
         \<and> tName t' = tName t \<and> tHost t' = tHost t \<and> tLocal t' = tLocal t
         \<and> tForward t' = map_option (\<lambda>a. if IsBlank a then a
               else snd (AddressValidate env ''tunnel'' (tName t) ''forward address'' True False a)) (tForward t)"
  using assms by (auto simp: checkForward_def say_def split: option.splits if_splits prod.splits)

lemma defaultLocal_frame:
  "tName (defaultLocal t) = tName t \<and> tHost (defaultLocal t) = tHost t
   \<and> tForward (defaultLocal t) = tForward t"
  by (auto simp: defaultLocal_def split: option.splits)

lemma defaultLocal_given:
  assumes "tLocal t = Some l" and "\<not> IsBlank l"
  shows "tLocal (defaultLocal t) = Some l"
  using assms by (auto simp: defaultLocal_def split: option.splits)

lemma checkLocal_result:
  assumes "checkLocal env t v g = (v', t', g')"
  shows "Hosts g' = Hosts g \<and> Tunnels g' = Tunnels g \<and> (\<exists>ms. console g' = console g @ ms)
         \<and> tName t' = tName t \<and> tHost t' = tHost t \<and> tForward t' = tForward t
         \<and> tLocal t' = map_option (\<lambda>a. if IsBlank a then a
               else snd (AddressValidate env ''tunnel'' (tName t) ''local address'' True False a)) (tLocal t)"
  using assms by (auto simp: checkLocal_def say_def split: option.splits if_splits prod.splits)

lemma checkTunnelHost_result:
  assumes "checkTunnelHost t v g = (v', g')"
  shows "Tunnels g' = Tunnels g \<and> (\<exists>ms. console g' = console g @ ms)
         \<and> Hosts g' = (case Hosts g (tHost t) of
                          None \<Rightarrow> Hosts g
                        | Some host \<Rightarrow> (if tHost t = [] then Hosts g
                                        else (Hosts g)(tHost t \<mapsto> host\<lparr>isHost := True\<rparr>)))"
  using assms by (auto simp: checkTunnelHost_def say_def split: option.splits if_splits)

lemma Tunnel_Validate_blocks:
  assumes "Tunnel_Validate env t0 g0 = (v, t', g')"
  shows "\<exists>v1 g1 v2 t2 g2 v3 t4 g3 g4.
      checkTunnelName (t0\<lparr>tName := TrimSpace (tName t0)\<rparr>) g0 = (v1, g1)
    \<and> checkForward env (t0\<lparr>tName := TrimSpace (tName t0)\<rparr>) v1 g1 = (v2, t2, g2)
    \<and> checkLocal env (defaultLocal t2) v2 g2 = (v3, t4, g3)
    \<and> checkTunnelHost (t4\<lparr>tHost := TrimSpace (tHost t4)\<rparr>) v3 g3 = (v, g4)
    \<and> t' = t4\<lparr>tHost := TrimSpace (tHost t4)\<rparr>
    \<and> g' = g4\<lparr>Tunnels := (Tunnels g4)(tName t' \<mapsto> t')\<rparr>"
  using assms
  by (auto simp add: Tunnel_Validate_def Let_def split: prod.splits)

lemma Tunnel_Validate_result:
  assumes "Tunnel_Validate env t0 g0 = (v, t', g')"
  shows "tName t' = TrimSpace (tName t0)"
    and "tHost t' = TrimSpace (tHost t0)"
    and "Tunnels g' = (Tunnels g0)(tName t' \<mapsto> t')"
    and "tForward t' = map_option (\<lambda>a. if IsBlank a then a
               else snd (AddressValidate env ''tunnel'' (TrimSpace (tName t0)) ''forward address'' True False a)) (tForward t0)"
    and "tLocal t0 = Some l \<Longrightarrow> \<not> IsBlank l \<Longrightarrow>
           tLocal t' = Some (snd (AddressValidate env ''tunnel'' (TrimSpace (tName t0)) ''local address'' True False l))"
    and "Hosts g' = (case Hosts g0 (TrimSpace (tHost t0)) of
                          None \<Rightarrow> Hosts g0
                        | Some host \<Rightarrow> (if TrimSpace (tHost t0) = [] then Hosts g0
                                        else (Hosts g0)(TrimSpace (tHost t0) \<mapsto> host\<lparr>isHost := True\<rparr>)))"
    and "\<exists>ms. console g' = console g0 @ ms"
proof -
  from Tunnel_Validate_blocks [OF assms] obtain v1 g1 v2 t2 g2 v3 t4 g3 g4 where
    b: "checkTunnelName (t0\<lparr>tName := TrimSpace (tName t0)\<rparr>) g0 = (v1, g1)"
       "checkForward env (t0\<lparr>tName := TrimSpace (tName t0)\<rparr>) v1 g1 = (v2, t2, g2)"
       "checkLocal env (defaultLocal t2) v2 g2 = (v3, t4, g3)"
       "checkTunnelHost (t4\<lparr>tHost := TrimSpace (tHost t4)\<rparr>) v3 g3 = (v, g4)"
       "t' = t4\<lparr>tHost := TrimSpace (tHost t4)\<rparr>"
       "g' = g4\<lparr>Tunnels := (Tunnels g4)(tName t' \<mapsto> t')\<rparr>"
    by blast
  note n = checkTunnelName_frame [OF b(1)]
  note f = checkForward_result [OF b(2)]
  note l = checkLocal_result [OF b(3)]
  note h = checkTunnelHost_result [OF b(4)]
  note d = defaultLocal_frame [of t2]
  show "tName t' = TrimSpace (tName t0)" using f l d b(5) by simp
  show "tHost t' = TrimSpace (tHost t0)" using f l d b(5) by simp
  show "Tunnels g' = (Tunnels g0)(tName t' \<mapsto> t')" using n f l h b(6) by simp
  show "tForward t' = map_option (\<lambda>a. if IsBlank a then a
               else snd (AddressValidate env ''tunnel'' (TrimSpace (tName t0)) ''forward address'' True False a)) (tForward t0)"
    using f l d b(5) by (simp cong: if_cong)
  show "tLocal t' = Some (snd (AddressValidate env ''tunnel'' (TrimSpace (tName t0)) ''local address'' True False l))"
    if "tLocal t0 = Some l" "\<not> IsBlank l"
  proof -
    have "tLocal t2 = Some l" using f that by simp
    then have "tLocal (defaultLocal t2) = Some l" using that(2) by (rule defaultLocal_given)
    then show ?thesis using l d f b(5) that(2) by (simp cong: if_cong)
  qed
  show "Hosts g' = (case Hosts g0 (TrimSpace (tHost t0)) of
                          None \<Rightarrow> Hosts g0
                        | Some host \<Rightarrow> (if TrimSpace (tHost t0) = [] then Hosts g0
                                        else (Hosts g0)(TrimSpace (tHost t0) \<mapsto> host\<lparr>isHost := True\<rparr>)))"
    using n f l h d b(6) by (auto split: option.splits)
  show "\<exists>ms. console g' = console g0 @ ms"
    using n f l h b(6) by auto
qed


lemma jumpTunnelFor_fields:
  "tName (jumpTunnelFor h j p) = hName j @ '' jumphost''"
  "tHost (jumpTunnelFor h j p) = hJumpHost h"
  "tForward (jumpTunnelFor h j p) = hAddress h"
  "tLocal (jumpTunnelFor h j p) = Some (NewAddress (''127.0.0.1:'' @ itoa (int32 p)))"
  by (simp_all add: jumpTunnelFor_def)

lemma loopback_not_blank: "\<not> IsBlank (NewAddress (''127.0.0.1:'' @ s))"
  by (simp add: IsBlank_def NewAddress_def)

lemma jumpHostStep_success:
  assumes "Hosts g k = Some h" and "hJumpHost h \<noteq> []" and "isHost h"
      and "Hosts g (hJumpHost h) = Some jumpHost" and "hJumpHost jumpHost = []"
      and "freePort env (length ls) = Some p"
      and "Tunnel_Validate env (jumpTunnelFor h jumpHost p) g = (ok, jt, g1)"
      and "Hosts g1 k = Some h1"
  shows "jumpHostStep env k (v, ls, g)
           = (Next, v, ls @ [p], g1\<lparr>Hosts := (Hosts g1)(k \<mapsto> h1\<lparr>hAddress := tLocal jt\<rparr>)\<rparr>)"
  using assms by (simp add: jumpHostStep_def)

text \<open>
  One successful round.  Take a round of the resolver loop for a host \<open>h\<close> that is a
  tunnel target and has a jump host, where the jump host is registered, has no jump host
  itself, and the probe finds port \<open>p\<close>.  The round registers a tunnel named after the
  jump host with the suffix " jumphost", whose host is the jump host, whose forward
  address is the address object of \<open>h\<close> (validated once more, in place, by the tunnel's
  own validation) and whose local address is made from 127.0.0.1 and the probed port and
  then validated.  The address of \<open>h\<close> is replaced by that local address and nothing
  else of \<open>h\<close> changes.  The tunnel is stored under the jump host's name, whatever was
  stored there before: the round says nothing about a tunnel that an earlier round stored
  under the same name.
\<close>

lemma jumpHostStep_round:
  assumes "registryKeyed g"
      and "Hosts g k = Some h" and "hJumpHost h \<noteq> []" and "isHost h"
      and "Hosts g (hJumpHost h) = Some jumpHost" and "hJumpHost jumpHost = []"
      and "freePort env (length ls) = Some p"
  shows "\<exists>jt g'.
           jumpHostStep env k (v, ls, g) = (Next, v, ls @ [p], g')
         \<and> Tunnels g' (hName jumpHost @ '' jumphost'') = Some jt
         \<and> tName jt = hName jumpHost @ '' jumphost''
         \<and> tHost jt = hJumpHost h
         \<and> tForward jt = map_option (\<lambda>a. if IsBlank a then a
               else snd (AddressValidate env ''tunnel'' (hName jumpHost @ '' jumphost'') ''forward address'' True False a))
               (hAddress h)
         \<and> tLocal jt = Some (snd (AddressValidate env ''tunnel'' (hName jumpHost @ '' jumphost'') ''local address''
               True False (NewAddress (''127.0.0.1:'' @ itoa (int32 p)))))
         \<and> Hosts g' k = Some (h\<lparr>hAddress := tLocal jt\<rparr>)
         \<and> (client h = None \<longrightarrow>
              Open env (h\<lparr>hAddress := tLocal jt\<rparr>)
                = (case sshDial env (address (the (tLocal jt))) (config h) of
                     None \<Rightarrow> Inr (False, h\<lparr>hAddress := tLocal jt, client := None\<rparr>)
                   | Some c \<Rightarrow> Inr (True, h\<lparr>hAddress := tLocal jt, client := Some c\<rparr>)))"
proof -
  obtain ok jt g1 where tv: "Tunnel_Validate env (jumpTunnelFor h jumpHost p) g = (ok, jt, g1)"
    by (metis prod_cases3)
  have jn: "hName jumpHost = hJumpHost h" and jtrim: "TrimSpace (hJumpHost h) = hJumpHost h"
    using assms(1,5) by (auto simp: registryKeyed_def)
  have nm: "TrimSpace (hName jumpHost @ '' jumphost'') = hName jumpHost @ '' jumphost''"
    using jn jtrim assms(3) by (simp add: TrimSpace_jumphost)
  note r = Tunnel_Validate_result [OF tv]
  have name: "tName jt = hName jumpHost @ '' jumphost''"
    using r(1) nm by (simp add: jumpTunnelFor_fields)
  have host: "tHost jt = hJumpHost h"
    using r(2) jtrim by (simp add: jumpTunnelFor_fields)
  have reg: "Tunnels g1 (hName jumpHost @ '' jumphost'') = Some jt"
    using r(3) name by simp
  have fwd: "tForward jt = map_option (\<lambda>a. if IsBlank a then a
               else snd (AddressValidate env ''tunnel'' (hName jumpHost @ '' jumphost'') ''forward address'' True False a))
               (hAddress h)"
    using r(4) nm by (simp add: jumpTunnelFor_fields cong: if_cong)
  have loc: "tLocal jt = Some (snd (AddressValidate env ''tunnel'' (hName jumpHost @ '' jumphost'') ''local address''
               True False (NewAddress (''127.0.0.1:'' @ itoa (int32 p)))))"
    using r(5) [OF jumpTunnelFor_fields(4) loopback_not_blank] nm by (simp add: jumpTunnelFor_fields)
  have kne: "k \<noteq> hJumpHost h"
    using assms(2,3,5,6) by auto
  have h1: "Hosts g1 k = Some h"
    using r(6) kne assms(2,5) jtrim by (simp add: jumpTunnelFor_fields)
  let ?g' = "g1\<lparr>Hosts := (Hosts g1)(k \<mapsto> h\<lparr>hAddress := tLocal jt\<rparr>)\<rparr>"
  have step: "jumpHostStep env k (v, ls, g) = (Next, v, ls @ [p], ?g')"
    using jumpHostStep_success [OF assms(2,3,4,5,6,7) tv h1] .
  have dial: "client h = None \<longrightarrow>
              Open env (h\<lparr>hAddress := tLocal jt\<rparr>)
                = (case sshDial env (address (the (tLocal jt))) (config h) of
                     None \<Rightarrow> Inr (False, h\<lparr>hAddress := tLocal jt, client := None\<rparr>)
                   | Some c \<Rightarrow> Inr (True, h\<lparr>hAddress := tLocal jt, client := Some c\<rparr>))"
  proof -
    obtain a where a: "tLocal jt = Some a" using loc by blast
    show ?thesis by (simp add: Open_def a split: option.splits)
  qed
  show ?thesis
    using step reg name host fwd loc dial by (intro exI [of _ jt] exI [of _ ?g']) simp
qed

subsection \<open>Rejection of chains and of self-reference\<close>

lemma checkJumpHost_frame:
  assumes "checkJumpHost h v g = (v', h', g')"
  shows "hName h' = hName h \<and> hJumpHost h' = hJumpHost h \<and> Hosts g' = Hosts g
         \<and> (\<exists>ms. console g' = console g @ ms)"
  using assms by (auto simp: checkJumpHost_def say_def split: if_splits)

lemma Host_Validate_registers:
  assumes "Host_Validate env du h g = Inr (v, h', g')"
  shows "hName h' = TrimSpace (hName h) \<and> hJumpHost h' = hJumpHost h
         \<and> Hosts g' = (Hosts g)(TrimSpace (hName h) \<mapsto> h')"
proof -
  from Host_Validate_blocks [OF assms] obtain v2 g2 v3 g3 v4 g4 v5 h6 g5 v6 h7 g6 h8 g7 where
    b: "checkHostName (h\<lparr>hName := TrimSpace (hName h)\<rparr>) g = (v2, g2)"
       "checkKnownHosts env ((defaultUser env du (h\<lparr>hName := TrimSpace (hName h)\<rparr>))
        \<lparr>hKnownHosts := TrimSpace (hKnownHosts (defaultUser env du (h\<lparr>hName := TrimSpace (hName h)\<rparr>)))\<rparr>) v2 g2 = Inr (v3, g3)"
       "checkIdentityGiven ((defaultUser env du (h\<lparr>hName := TrimSpace (hName h)\<rparr>))
        \<lparr>hKnownHosts := TrimSpace (hKnownHosts (defaultUser env du (h\<lparr>hName := TrimSpace (hName h)\<rparr>))),
          hIdentity := TrimSpace (hIdentity (defaultUser env du (h\<lparr>hName := TrimSpace (hName h)\<rparr>)))\<rparr>) v3 g3 = (v4, g4)"
       "checkIdentity env ((defaultUser env du (h\<lparr>hName := TrimSpace (hName h)\<rparr>))
        \<lparr>hKnownHosts := TrimSpace (hKnownHosts (defaultUser env du (h\<lparr>hName := TrimSpace (hName h)\<rparr>))),
          hIdentity := TrimSpace (hIdentity (defaultUser env du (h\<lparr>hName := TrimSpace (hName h)\<rparr>)))\<rparr>) v4 g4 = Inr (v5, h6, g5)"
       "checkHostAddress env h6 v5 g5 = (v6, h7, g6)"
       "checkJumpHost h7 v6 g6 = (v, h8, g7)"
       "h' = h8\<lparr>config := Some (buildConfig h8 g7)\<rparr>"
       "g' = g7\<lparr>Hosts := (Hosts g7)(hName h8 \<mapsto> h')\<rparr>"
    by blast
  have k3: "Hosts g3 = Hosts g"
    using checkHostName_frame [OF b(1)] b(2)
    by (auto simp: checkKnownHosts_def say_def
             split: option.splits StatResult.splits sum.splits ReadError.splits)
  have k4: "Hosts g4 = Hosts g" using checkIdentityGiven_frame [OF b(3)] k3 by simp
  have f5: "Hosts g5 = Hosts g" "hJumpHost h6 = hJumpHost h" "hName h6 = TrimSpace (hName h)"
    using checkIdentity_frame [OF b(4)] k4 by (simp_all add: defaultUser_frame)
  have f6: "Hosts g6 = Hosts g" "hJumpHost h7 = hJumpHost h" "hName h7 = TrimSpace (hName h)"
    using checkHostAddress_frame [OF b(5)] f5 by simp_all
  have f7: "Hosts g7 = Hosts g" "hJumpHost h8 = hJumpHost h" "hName h8 = TrimSpace (hName h)"
    using checkJumpHost_frame [OF b(6)] f6 by simp_all
  show ?thesis using f7 b(7,8) by simp
qed

lemma registryKeyed_initial: "registryKeyed initialGlobals"
  by (simp add: registryKeyed_def initialGlobals_def)

lemma Host_Validate_registryKeyed:
  assumes "Host_Validate env du h g = Inr (v, h', g')" and "registryKeyed g"
  shows "registryKeyed g'"
  using Host_Validate_registers [OF assms(1)] assms(2)
  by (auto simp: registryKeyed_def TrimSpace_idem)

lemma validateHosts_registryKeyed:
  assumes "validateHosts env du hs v g = Inr (v', g')" and "registryKeyed g"
  shows "registryKeyed g'"
  using assms
proof (induction hs arbitrary: v g)
  case Nil
  then show ?case by simp
next
  case (Cons h hs)
  then show ?case
    by (auto split: sum.splits dest: Host_Validate_registryKeyed)
qed

lemma Tunnel_Validate_registryKeyed:
  assumes "Tunnel_Validate env t g = (v, t', g')" and "registryKeyed g"
  shows "registryKeyed g'"
  using Tunnel_Validate_result(6) [OF assms(1)] assms(2)
  by (auto simp: registryKeyed_def split: option.splits if_splits)

lemma validateTunnels_registryKeyed:
  assumes "validateTunnels env ts v g = (v', g')" and "registryKeyed g"
  shows "registryKeyed g'"
  using assms
proof (induction ts arbitrary: v g)
  case Nil
  then show ?case by simp
next
  case (Cons t ts)
  then show ?case
    by (auto split: prod.splits dest: Tunnel_Validate_registryKeyed)
qed

lemma hostsKept_same: "Hosts g' = Hosts g \<Longrightarrow> hostsKept g g'"
  by (auto simp: hostsKept_def split: option.splits)

lemma hostsKept_update:
  assumes "Hosts g k = Some h" and "hJumpHost h' = hJumpHost h" and "hName h' = hName h"
      and "isHost h \<longrightarrow> isHost h'" and "Hosts g' = (Hosts g)(k \<mapsto> h')"
  shows "hostsKept g g'"
  using assms by (auto simp: hostsKept_def split: option.splits)

lemma hostsKept_trans:
  assumes "hostsKept g1 g2" and "hostsKept g2 g3"
  shows "hostsKept g1 g3"
  unfolding hostsKept_def
proof
  fix x
  show "case Hosts g1 x of
            None \<Rightarrow> Hosts g3 x = None
          | Some hx \<Rightarrow> (\<exists>hx'. Hosts g3 x = Some hx' \<and> hJumpHost hx' = hJumpHost hx
                          \<and> hName hx' = hName hx \<and> (isHost hx \<longrightarrow> isHost hx'))"
    using assms(1) [unfolded hostsKept_def, rule_format, of x]
          assms(2) [unfolded hostsKept_def, rule_format, of x]
    by (auto split: option.splits)
qed

lemma hostsKept_Some:
  assumes "hostsKept g g'" and "Hosts g x = Some hx"
  obtains hx' where "Hosts g' x = Some hx'" and "hJumpHost hx' = hJumpHost hx"
    and "hName hx' = hName hx" and "isHost hx \<longrightarrow> isHost hx'"
  using assms(1) [unfolded hostsKept_def, rule_format, of x] assms(2) by auto

lemma Tunnel_Validate_hostsKept:
  assumes "Tunnel_Validate env t g = (v, t', g')"
  shows "hostsKept g g'"
proof (cases "Hosts g (TrimSpace (tHost t))")
  case None
  then show ?thesis using Tunnel_Validate_result(6) [OF assms] by (simp add: hostsKept_same)
next
  case (Some host)
  show ?thesis
  proof (cases "TrimSpace (tHost t) = []")
    case True
    then show ?thesis using Some Tunnel_Validate_result(6) [OF assms] by (simp add: hostsKept_same)
  next
    case False
    then have "Hosts g' = (Hosts g)(TrimSpace (tHost t) \<mapsto> host\<lparr>isHost := True\<rparr>)"
      using Some Tunnel_Validate_result(6) [OF assms] by simp
    then show ?thesis by (intro hostsKept_update [OF Some]) simp_all
  qed
qed

text \<open>What one round of the resolver loop does to the registry, the flag and the console.\<close>

lemma jumpHostStep_effect:
  assumes "jumpHostStep env k' (v, ls, g) = (f, v', ls', g')"
  shows "hostsKept g g'"
    and "v' \<longrightarrow> v"
    and "f = Break \<longrightarrow> \<not> v'"
    and "\<exists>ms. console g' = console g @ ms"
proof -
  have "hostsKept g g' \<and> (v' \<longrightarrow> v) \<and> (f = Break \<longrightarrow> \<not> v') \<and> (\<exists>ms. console g' = console g @ ms)"
  proof (cases "Hosts g k'")
    case None
    then show ?thesis using assms by (auto simp: jumpHostStep_def hostsKept_same split: option.splits)
  next
    case (Some h)
    note h = this
    show ?thesis
    proof (cases "hJumpHost h \<noteq> [] \<and> isHost h")
      case False
      then show ?thesis using assms h by (auto simp: jumpHostStep_def hostsKept_same split: option.splits)
    next
      case True
      note jh = this
      show ?thesis
      proof (cases "Hosts g (hJumpHost h)")
        case None
        then show ?thesis using assms h jh
          by (auto simp: jumpHostStep_def say_def hostsKept_same split: option.splits)
      next
        case (Some j)
        note j = this
        show ?thesis
        proof (cases "hJumpHost j \<noteq> []")
          case True
          then show ?thesis using assms h jh j
            by (auto simp: jumpHostStep_def say_def hostsKept_same split: option.splits)
        next
          case False
          note nj = this
          show ?thesis
          proof (cases "freePort env (length ls)")
            case None
            then show ?thesis using assms h jh j nj
              by (auto simp: jumpHostStep_def hostsKept_same split: option.splits)
          next
            case (Some p)
            obtain ok jt g1 where tv: "Tunnel_Validate env (jumpTunnelFor h j p) g = (ok, jt, g1)"
              by (metis prod_cases3)
            note k1 = Tunnel_Validate_hostsKept [OF tv]
            note r7 = Tunnel_Validate_result(7) [OF tv]
            from hostsKept_Some [OF k1 h] obtain h1 where
              h1: "Hosts g1 k' = Some h1" "hJumpHost h1 = hJumpHost h"
                  "hName h1 = hName h" "isHost h \<longrightarrow> isHost h1"
              by blast
            let ?g' = "g1\<lparr>Hosts := (Hosts g1)(k' \<mapsto> h1\<lparr>hAddress := tLocal jt\<rparr>)\<rparr>"
            have res: "f = Next" "v' = v" "ls' = ls @ [p]" "g' = ?g'"
              using assms h jh j nj Some tv h1(1) by (simp_all add: jumpHostStep_def)
            have "hostsKept g1 ?g'"
              by (rule hostsKept_update [OF h1(1)]) simp_all
            then have "hostsKept g g'" using k1 res(4) by (auto intro: hostsKept_trans)
            moreover have "\<exists>ms. console g' = console g @ ms" using r7 res(4) by simp
            ultimately show ?thesis using res by simp
          qed
        qed
      qed
    qed
  qed
  then show "hostsKept g g'" and "v' \<longrightarrow> v" and "f = Break \<longrightarrow> \<not> v'"
    and "\<exists>ms. console g' = console g @ ms"
    by blast+
qed

lemma jumpHostStep_chained:
  assumes "jumpHostStep env k' (v, ls, g) = (f, v', ls', g')" and "chained g k"
  shows "chained g' k"
proof -
  note e = jumpHostStep_effect(1) [OF assms(1)]
  from assms(2) obtain h j where
    h: "Hosts g k = Some h" "isHost h" "hJumpHost h \<noteq> []"
       "Hosts g (hJumpHost h) = Some j" "hJumpHost j \<noteq> []"
    by (auto simp: chained_def split: option.splits)
  from hostsKept_Some [OF e h(1)] obtain h' where
    h': "Hosts g' k = Some h'" "hJumpHost h' = hJumpHost h" "isHost h'"
    using h(2) by blast
  from hostsKept_Some [OF e h(4)] obtain j' where
    j': "Hosts g' (hJumpHost h) = Some j'" "hJumpHost j' = hJumpHost j"
    by blast
  show ?thesis using h' j' h by (simp add: chained_def)
qed

lemma jumpHostStep_chain_error:
  assumes "Hosts g k = Some h" and "chained g k"
  shows "jumpHostStep env k (v, ls, g) = (Next, False, ls, say (ErrMultiHostJump (hName h)) g)"
  using assms by (auto simp: jumpHostStep_def chained_def split: option.splits)

lemma jumpHostLoop_false: "fst (jumpHostLoop env keys (False, ls, g)) = False"
proof (induction keys arbitrary: ls g)
  case Nil
  then show ?case by simp
next
  case (Cons k' ks)
  obtain f v' ls' g' where st: "jumpHostStep env k' (False, ls, g) = (f, v', ls', g')"
    by (metis prod_cases4)
  from jumpHostStep_effect(2) [OF st] have "\<not> v'" by simp
  then show ?case using st Cons.IH by (cases f) simp_all
qed

lemma jumpHostLoop_chained:
  assumes "chained g k" and "k \<in> set keys"
  shows "fst (jumpHostLoop env keys (v, ls, g)) = False"
  using assms
proof (induction keys arbitrary: v ls g)
  case Nil
  then show ?case by simp
next
  case (Cons k' ks)
  obtain f v' ls' g' where st: "jumpHostStep env k' (v, ls, g) = (f, v', ls', g')"
    by (metis prod_cases4)
  show ?case
  proof (cases f)
    case Break
    then show ?thesis using st jumpHostStep_effect(3) [OF st] by simp
  next
    case Next
    show ?thesis
    proof (cases "k' = k")
      case True
      obtain h where "Hosts g k = Some h" using Cons.prems(1) by (auto simp: chained_def split: option.splits)
      from jumpHostStep_chain_error [OF this Cons.prems(1), of env v ls] st True
      have "v' = False" by simp
      then show ?thesis using st Next by (simp add: jumpHostLoop_false)
    next
      case False
      then have "k \<in> set ks" using Cons.prems(2) by simp
      moreover have "chained g' k" using jumpHostStep_chained [OF st Cons.prems(1)] .
      ultimately show ?thesis using Cons.IH st Next by simp
    qed
  qed
qed


lemma jumpHostStep_break:
  assumes "jumpHostStep env k' (v, ls, g) = (Break, v', ls', g')"
  shows "freePort env (length ls) = None"
  using assms
  by (auto simp: jumpHostStep_def split: option.splits if_splits prod.splits)

lemma jumpHostLoop_console:
  "\<exists>ms. console (snd (snd (jumpHostLoop env keys (v, ls, g)))) = console g @ ms"
proof (induction keys arbitrary: v ls g)
  case Nil
  then show ?case by simp
next
  case (Cons k' ks)
  obtain f v' ls' g' where st: "jumpHostStep env k' (v, ls, g) = (f, v', ls', g')"
    by (metis prod_cases4)
  from jumpHostStep_effect(4) [OF st] obtain ms where ms: "console g' = console g @ ms" by blast
  show ?case
  proof (cases f)
    case Break
    then show ?thesis using st ms by simp
  next
    case Next
    from Cons.IH [of v' ls' g'] obtain ms' where
      "console (snd (snd (jumpHostLoop env ks (v', ls', g')))) = console g' @ ms'" by blast
    then show ?thesis using st Next ms by simp
  qed
qed

lemma hostsKept_refl: "hostsKept g g"
  by (rule hostsKept_same) simp

lemma jumpHostLoop_hostsKept:
  "hostsKept g (snd (snd (jumpHostLoop env keys (v, ls, g))))"
proof (induction keys arbitrary: v ls g)
  case Nil
  then show ?case by (simp add: hostsKept_refl)
next
  case (Cons k' ks)
  obtain f v' ls' g' where st: "jumpHostStep env k' (v, ls, g) = (f, v', ls', g')"
    by (metis prod_cases4)
  note e = jumpHostStep_effect(1) [OF st]
  show ?case
  proof (cases f)
    case Break
    then show ?thesis using st e by simp
  next
    case Next
    from Cons.IH [of g' v' ls'] e have "hostsKept g (snd (snd (jumpHostLoop env ks (v', ls', g'))))"
      by (rule hostsKept_trans [rotated])
    then show ?thesis using st Next by simp
  qed
qed

lemma jumpHostLoop_append:
  "loopReaches env pre s \<Longrightarrow> jumpHostLoop env (pre @ rest) s = jumpHostLoop env rest (jumpHostLoop env pre s)"
proof (induction pre arbitrary: s)
  case Nil
  then show ?case by simp
next
  case (Cons k' ks)
  obtain f s' where st: "jumpHostStep env k' s = (f, s')" by (cases "jumpHostStep env k' s") blast
  show ?case
  proof (cases f)
    case Break
    then show ?thesis using Cons.prems st by simp
  next
    case Next
    then show ?thesis using Cons st by simp
  qed
qed

lemma loopReaches_probes:
  assumes "\<forall>n. freePort env n \<noteq> None"
  shows "loopReaches env ks (v, ls, g)"
proof (induction ks arbitrary: v ls g)
  case Nil
  then show ?case by simp
next
  case (Cons k' ks)
  obtain f v' ls' g' where st: "jumpHostStep env k' (v, ls, g) = (f, v', ls', g')"
    by (metis prod_cases4)
  have "f = Next"
  proof (cases f)
    case Break
    then show ?thesis using jumpHostStep_break [of env k' v ls g v' ls' g'] st assms by simp
  qed simp
  then show ?case using st Cons.IH by simp
qed

lemma jumpHostLoop_reached_message:
  assumes "chained g k" and "Hosts g k = Some h" and "loopReaches env pre (v, ls, g)"
  shows "ErrMultiHostJump (hName h) \<in> set (console (snd (snd (jumpHostLoop env (pre @ k # post) (v, ls, g)))))"
proof -
  obtain v1 ls1 g1 where s1: "jumpHostLoop env pre (v, ls, g) = (v1, ls1, g1)"
    by (metis prod_cases3)
  have kept: "hostsKept g g1" using jumpHostLoop_hostsKept [of g env pre v ls] s1 by simp
  from hostsKept_Some [OF kept assms(2)] obtain h1 where
    h1: "Hosts g1 k = Some h1" "hJumpHost h1 = hJumpHost h" "hName h1 = hName h" "isHost h \<longrightarrow> isHost h1"
    by blast
  from assms(1,2) obtain j where
    j: "isHost h" "hJumpHost h \<noteq> []" "Hosts g (hJumpHost h) = Some j" "hJumpHost j \<noteq> []"
    by (auto simp: chained_def split: option.splits)
  from hostsKept_Some [OF kept j(3)] obtain j1 where
    j1: "Hosts g1 (hJumpHost h) = Some j1" "hJumpHost j1 = hJumpHost j"
    by blast
  have ch1: "chained g1 k" using h1 j j1 by (simp add: chained_def)
  have step: "jumpHostStep env k (v1, ls1, g1) = (Next, False, ls1, say (ErrMultiHostJump (hName h)) g1)"
    using jumpHostStep_chain_error [OF h1(1) ch1, of env v1 ls1] h1(3) by simp
  from jumpHostLoop_console [of env post False ls1 "say (ErrMultiHostJump (hName h)) g1"] obtain ms where
    ms: "console (snd (snd (jumpHostLoop env post (False, ls1, say (ErrMultiHostJump (hName h)) g1))))
           = console (say (ErrMultiHostJump (hName h)) g1) @ ms"
    by blast
  have "jumpHostLoop env (pre @ k # post) (v, ls, g)
          = jumpHostLoop env post (False, ls1, say (ErrMultiHostJump (hName h)) g1)"
    using jumpHostLoop_append [OF assms(3), of "k # post"] s1 step by simp
  then show ?thesis using ms by (simp add: say_def)
qed

lemma validateJumpHosts_reached_message:
  assumes "chained g k" and "Hosts g k = Some h" and "loopReaches env pre (True, [], g)"
  shows "ErrMultiHostJump (hName h) \<in> set (console (snd (validateJumpHosts env (pre @ k # post) g)))"
  using jumpHostLoop_reached_message [OF assms, of post]
  by (auto simp: validateJumpHosts_def split: prod.splits)

lemma jumpHostStep_passes_over:
  assumes "Hosts g k = Some h" and "\<not> isHost h"
  shows "jumpHostStep env k (v, ls, g) = (Next, v, ls, g)"
  using assms by (simp add: jumpHostStep_def)

lemma pruneUnused_deletes:
  assumes "Hosts g k = Some h" and "\<not> isHost h" and "\<not> isJumpHost h"
  shows "Hosts (pruneUnused g) k = None"
  using assms by (simp add: pruneUnused_def)

lemma Host_Validate_self_reference:
  assumes "Host_Validate env du h g = Inr (v, h', g')"
      and "hJumpHost h \<noteq> []" and "hJumpHost h = TrimSpace (hName h)"
  shows "\<not> v \<and> ErrJumpHostSelf (TrimSpace (hName h)) \<in> set (console g')"
proof -
  from Host_Validate_blocks [OF assms(1)] obtain v2 g2 v3 g3 v4 g4 v5 h6 g5 v6 h7 g6 h8 g7 where
    b: "checkHostName (h\<lparr>hName := TrimSpace (hName h)\<rparr>) g = (v2, g2)"
       "checkKnownHosts env ((defaultUser env du (h\<lparr>hName := TrimSpace (hName h)\<rparr>))
        \<lparr>hKnownHosts := TrimSpace (hKnownHosts (defaultUser env du (h\<lparr>hName := TrimSpace (hName h)\<rparr>)))\<rparr>) v2 g2 = Inr (v3, g3)"
       "checkIdentityGiven ((defaultUser env du (h\<lparr>hName := TrimSpace (hName h)\<rparr>))
        \<lparr>hKnownHosts := TrimSpace (hKnownHosts (defaultUser env du (h\<lparr>hName := TrimSpace (hName h)\<rparr>))),
          hIdentity := TrimSpace (hIdentity (defaultUser env du (h\<lparr>hName := TrimSpace (hName h)\<rparr>)))\<rparr>) v3 g3 = (v4, g4)"
       "checkIdentity env ((defaultUser env du (h\<lparr>hName := TrimSpace (hName h)\<rparr>))
        \<lparr>hKnownHosts := TrimSpace (hKnownHosts (defaultUser env du (h\<lparr>hName := TrimSpace (hName h)\<rparr>))),
          hIdentity := TrimSpace (hIdentity (defaultUser env du (h\<lparr>hName := TrimSpace (hName h)\<rparr>)))\<rparr>) v4 g4 = Inr (v5, h6, g5)"
       "checkHostAddress env h6 v5 g5 = (v6, h7, g6)"
       "checkJumpHost h7 v6 g6 = (v, h8, g7)"
       "h' = h8\<lparr>config := Some (buildConfig h8 g7)\<rparr>"
       "g' = g7\<lparr>Hosts := (Hosts g7)(hName h8 \<mapsto> h')\<rparr>"
    by blast
  have f5: "hJumpHost h6 = hJumpHost h" "hName h6 = TrimSpace (hName h)"
    using checkIdentity_frame [OF b(4)] by (simp_all add: defaultUser_frame)
  have f6: "hJumpHost h7 = hJumpHost h" "hName h7 = TrimSpace (hName h)"
    using checkHostAddress_frame [OF b(5)] f5 by simp_all
  from checkJumpHost_self [OF b(6)] f6 assms(2,3)
  have "\<not> v" "console g7 = console g6 @ [ErrJumpHostSelf (TrimSpace (hName h))]" by simp_all
  then show ?thesis using b(8) by simp
qed

lemma validateHosts_flag:
  assumes "validateHosts env du hs v g = Inr (v', g')"
      and "\<not> v \<or> (\<exists>h \<in> set hs. hJumpHost h \<noteq> [] \<and> hJumpHost h = TrimSpace (hName h))"
  shows "\<not> v'"
  using assms
proof (induction hs arbitrary: v g)
  case Nil
  then show ?case by simp
next
  case (Cons h hs)
  from Cons.prems(1) obtain ok h1 g1 where
    hv: "Host_Validate env du h g = Inr (ok, h1, g1)"
    and rest: "validateHosts env du hs (if \<not> ok then False else v) g1 = Inr (v', g')"
    by (auto split: sum.splits)
  have "\<not> (if \<not> ok then False else v)
        \<or> (\<exists>h \<in> set hs. hJumpHost h \<noteq> [] \<and> hJumpHost h = TrimSpace (hName h))"
  proof (cases "hJumpHost h \<noteq> [] \<and> hJumpHost h = TrimSpace (hName h)")
    case True
    then have "\<not> ok" using Host_Validate_self_reference [OF hv] by blast
    then show ?thesis by simp
  next
    case False
    then show ?thesis using Cons.prems(2) by auto
  qed
  from Cons.IH [OF rest this] show ?case .
qed

lemma validateTunnels_flag:
  assumes "validateTunnels env ts v g = (v', g')" and "\<not> v"
  shows "\<not> v'"
  using assms
proof (induction ts arbitrary: v g)
  case Nil
  then show ?case by simp
next
  case (Cons t ts)
  then show ?case by (auto split: prod.splits)
qed

lemma Configuration_Validate_phases:
  assumes "Configuration_Validate env du keys c g = Inr (v, g')"
  shows "\<exists>v1 g1 v2 g2. validateHosts env du (cHosts c) True g = Inr (v1, g1)
          \<and> validateTunnels env (cTunnels c) v1 g1 = (v2, g2)
          \<and> v = (if \<not> fst (validateJumpHosts env keys g2) then False else v2)
          \<and> g' = pruneUnused (snd (validateJumpHosts env keys g2))"
proof -
  from assms obtain v1 g1 where vh: "validateHosts env du (cHosts c) True g = Inr (v1, g1)"
    by (auto simp: Configuration_Validate_def split: sum.splits)
  obtain v2 g2 where vt: "validateTunnels env (cTunnels c) v1 g1 = (v2, g2)"
    by (cases "validateTunnels env (cTunnels c) v1 g1") blast
  obtain v3 g3 where vj: "validateJumpHosts env keys g2 = (v3, g3)"
    by (cases "validateJumpHosts env keys g2") blast
  have "v = (if \<not> v3 then False else v2)" "g' = pruneUnused g3"
    using assms vh vt vj by (simp_all add: Configuration_Validate_def)
  then show ?thesis using vh vt vj by simp
qed

lemma validateJumpHosts_chained:
  assumes "chained g k" and "k \<in> set keys"
  shows "\<not> fst (validateJumpHosts env keys g)"
  using jumpHostLoop_chained [OF assms, of env True "[]"]
  by (auto simp: validateJumpHosts_def split: prod.splits)

lemma Configuration_Validate_returns:
  assumes "validateHosts env du (cHosts c) True g = Inr (v1, g1)"
  shows "\<exists>v g'. Configuration_Validate env du keys c g = Inr (v, g')"
  using assms by (simp add: Configuration_Validate_def split: prod.splits)

text \<open>When no probe fails at all, the loop gets past every list of keys, so the chaining
  error is printed in every iteration order that contains the host.\<close>

lemma validateJumpHosts_chain_message:
  assumes "chained g k" and "k \<in> set keys" and "Hosts g k = Some h"
      and "\<forall>n. freePort env n \<noteq> None"
  shows "ErrMultiHostJump (hName h) \<in> set (console (snd (validateJumpHosts env keys g)))"
proof -
  from assms(2) obtain pre post where "keys = pre @ k # post" by (auto dest: split_list)
  then show ?thesis
    using validateJumpHosts_reached_message [OF assms(1,3) loopReaches_probes [OF assms(4)], of pre post]
    by simp
qed

text \<open>
  Claim C5 as amended.  A host that is marked as a tunnel target and whose registered jump
  host names a jump host itself makes \<^verbatim>\<open>validateJumpHosts\<close> return false in every
  iteration order that contains it, and the console holds the chaining error that names
  the host whenever the loop reaches the host, that is, whenever no round for an earlier
  key ended the loop (on a failed port probe).  A host whose jump host is its own trimmed
  name makes \<^verbatim>\<open>Host.Validate\<close> return false with the self-reference error.  In both
  cases \<^verbatim>\<open>Configuration.Validate\<close> returns false.  A host that is not marked as a
  tunnel target is passed over by the round of the resolver with nothing changed, and a
  host that is neither a tunnel target nor marked as a jump host when the resolver has
  finished is deleted from the registry by \<^verbatim>\<open>Configuration.Validate\<close>.
\<close>

theorem jump_host_rejection:
  "(chained g k \<and> k \<in> set keys \<longrightarrow> \<not> fst (validateJumpHosts env keys g))
   \<and> (chained g k \<and> Hosts g k = Some h \<and> loopReaches env pre (True, [], g)
        \<longrightarrow> ErrMultiHostJump (hName h) \<in> set (console (snd (validateJumpHosts env (pre @ k # post) g))))
   \<and> (hJumpHost h0 \<noteq> [] \<and> hJumpHost h0 = TrimSpace (hName h0)
        \<and> Host_Validate env du h0 gs = Inr (v0, h0', g0')
        \<longrightarrow> \<not> v0 \<and> ErrJumpHostSelf (TrimSpace (hName h0)) \<in> set (console g0'))
   \<and> (Configuration_Validate env du keys c gi = Inr (v, g')
        \<and> (\<exists>x \<in> set (cHosts c). hJumpHost x \<noteq> [] \<and> hJumpHost x = TrimSpace (hName x))
        \<longrightarrow> \<not> v)
   \<and> (Configuration_Validate env du keys c gi = Inr (v, g')
        \<and> validateHosts env du (cHosts c) True gi = Inr (v1, g1)
        \<and> validateTunnels env (cTunnels c) v1 g1 = (v2, g2)
        \<and> chained g2 k \<and> k \<in> set keys
        \<longrightarrow> \<not> v)
   \<and> (Hosts gu ku = Some hu \<and> \<not> isHost hu \<longrightarrow> jumpHostStep env ku (vu, lu, gu) = (Next, vu, lu, gu))
   \<and> (Configuration_Validate env du keys c gi = Inr (v, g')
        \<and> validateHosts env du (cHosts c) True gi = Inr (v1, g1)
        \<and> validateTunnels env (cTunnels c) v1 g1 = (v2, g2)
        \<and> Hosts (snd (validateJumpHosts env keys g2)) ku = Some hp \<and> \<not> isHost hp \<and> \<not> isJumpHost hp
        \<longrightarrow> Hosts g' ku = None)"
proof (intro conjI impI)
  assume "chained g k \<and> k \<in> set keys"
  then show "\<not> fst (validateJumpHosts env keys g)"
    using validateJumpHosts_chained [of g k keys env] by blast
next
  assume "chained g k \<and> Hosts g k = Some h \<and> loopReaches env pre (True, [], g)"
  then show "ErrMultiHostJump (hName h) \<in> set (console (snd (validateJumpHosts env (pre @ k # post) g)))"
    using validateJumpHosts_reached_message [of g k h env pre post] by blast
next
  assume a: "hJumpHost h0 \<noteq> [] \<and> hJumpHost h0 = TrimSpace (hName h0)
        \<and> Host_Validate env du h0 gs = Inr (v0, h0', g0')"
  then show "\<not> v0" using Host_Validate_self_reference [of env du h0 gs v0 h0' g0'] by blast
  from a show "ErrJumpHostSelf (TrimSpace (hName h0)) \<in> set (console g0')"
    using Host_Validate_self_reference [of env du h0 gs v0 h0' g0'] by blast
next
  assume a: "Configuration_Validate env du keys c gi = Inr (v, g')
        \<and> (\<exists>x \<in> set (cHosts c). hJumpHost x \<noteq> [] \<and> hJumpHost x = TrimSpace (hName x))"
  from Configuration_Validate_phases [of env du keys c gi v g'] a obtain w1 s1 w2 s2 where
    p: "validateHosts env du (cHosts c) True gi = Inr (w1, s1)"
       "validateTunnels env (cTunnels c) w1 s1 = (w2, s2)"
       "v = (if \<not> fst (validateJumpHosts env keys s2) then False else w2)"
    by blast
  have "\<not> w1" using validateHosts_flag [OF p(1)] a by blast
  then have "\<not> w2" using validateTunnels_flag [OF p(2)] by simp
  then show "\<not> v" using p(3) by simp
next
  assume a: "Configuration_Validate env du keys c gi = Inr (v, g')
        \<and> validateHosts env du (cHosts c) True gi = Inr (v1, g1)
        \<and> validateTunnels env (cTunnels c) v1 g1 = (v2, g2)
        \<and> chained g2 k \<and> k \<in> set keys"
  from Configuration_Validate_phases [of env du keys c gi v g'] a
  have "v = (if \<not> fst (validateJumpHosts env keys g2) then False else v2)" by auto
  moreover have "\<not> fst (validateJumpHosts env keys g2)"
    using a validateJumpHosts_chained [of g2 k keys env] by blast
  ultimately show "\<not> v" by simp
next
  assume "Hosts gu ku = Some hu \<and> \<not> isHost hu"
  then show "jumpHostStep env ku (vu, lu, gu) = (Next, vu, lu, gu)"
    using jumpHostStep_passes_over [of gu ku hu env vu lu] by blast
next
  assume a: "Configuration_Validate env du keys c gi = Inr (v, g')
        \<and> validateHosts env du (cHosts c) True gi = Inr (v1, g1)
        \<and> validateTunnels env (cTunnels c) v1 g1 = (v2, g2)
        \<and> Hosts (snd (validateJumpHosts env keys g2)) ku = Some hp \<and> \<not> isHost hp \<and> \<not> isJumpHost hp"
  from Configuration_Validate_phases [of env du keys c gi v g'] a
  have g': "g' = pruneUnused (snd (validateJumpHosts env keys g2))" by auto
  from a have "Hosts (pruneUnused (snd (validateJumpHosts env keys g2))) ku = None"
    using pruneUnused_deletes [of "snd (validateJumpHosts env keys g2)" ku hp] by blast
  then show "Hosts g' ku = None" using g' by simp
qed

theorem jump_host_rejection_witness:
  "chained (validatedRegistry exampleEnv ''me'' usedChainConfig) ''A''
   \<and> loopReaches exampleEnv [''C''] (True, [], validatedRegistry exampleEnv ''me'' usedChainConfig)
   \<and> \<not> fst (validateJumpHosts exampleEnv [''C'', ''A'', ''B''] (validatedRegistry exampleEnv ''me'' usedChainConfig))
   \<and> ErrMultiHostJump ''A''
        \<in> set (console (snd (validateJumpHosts exampleEnv [''C'', ''A'', ''B'']
                               (validatedRegistry exampleEnv ''me'' usedChainConfig))))
   \<and> hJumpHost (exampleHost ''S'' ''10.0.0.9:22'' ''S'') = TrimSpace (hName (exampleHost ''S'' ''10.0.0.9:22'' ''S''))
   \<and> (\<exists>v h' g'. Host_Validate exampleEnv ''me'' (exampleHost ''S'' ''10.0.0.9:22'' ''S'') initialGlobals = Inr (v, h', g')
         \<and> \<not> v \<and> ErrJumpHostSelf ''S'' \<in> set (console g'))
   \<and> map_sum id fst (Configuration_Validate exampleEnv ''me'' [''C'', ''A'', ''B''] usedChainConfig initialGlobals)
        = Inr False
   \<and> map_sum id fst (Configuration_Validate exampleEnv ''me'' [''S'']
          \<lparr>cHosts = [exampleHost ''S'' ''10.0.0.9:22'' ''S''], cTunnels = []\<rparr> initialGlobals)
        = Inr False
   \<and> map_option isHost (Hosts (validatedRegistry exampleEnv ''me'' unusedChainConfig) ''A'') = Some False
   \<and> jumpHostStep exampleEnv ''A'' (True, [], validatedRegistry exampleEnv ''me'' unusedChainConfig)
        = (Next, True, [], validatedRegistry exampleEnv ''me'' unusedChainConfig)
   \<and> Hosts (validatedGlobals exampleEnv ''me'' [''A'', ''B'', ''C''] unusedChainConfig) ''A'' = None"
proof -
  let ?g = "validatedRegistry exampleEnv ''me'' usedChainConfig"
  let ?u = "validatedRegistry exampleEnv ''me'' unusedChainConfig"
  let ?keys = "[''C'', ''A'', ''B'']"
  let ?ukeys = "[''A'', ''B'', ''C'']"
  let ?s = "exampleHost ''S'' ''10.0.0.9:22'' ''S''"
  let ?sc = "\<lparr>cHosts = [?s], cTunnels = []\<rparr>"
  have ch: "chained ?g ''A''" by (simp add: all_eval chained_def)
  have mem: "''A'' \<in> set ?keys" by simp
  have reach: "loopReaches exampleEnv [''C''] (True, [], ?g)" by (simp add: all_eval)
  have "\<exists>h. Hosts ?g ''A'' = Some h \<and> hName h = ''A''" by (simp add: all_eval)
  then obtain h where h: "Hosts ?g ''A'' = Some h" "hName h = ''A''" by blast
  have self: "hJumpHost ?s \<noteq> []" "hJumpHost ?s = TrimSpace (hName ?s)"
    by (simp_all add: exampleHost_def string_eval)
  obtain v0 h0' g0' where hv: "Host_Validate exampleEnv ''me'' ?s initialGlobals = Inr (v0, h0', g0')"
    by (auto simp: all_eval)
  obtain v1 g1 where vh: "validateHosts exampleEnv ''me'' (cHosts usedChainConfig) True initialGlobals = Inr (v1, g1)"
    by (auto simp: all_eval)
  obtain v2 g2 where vt: "validateTunnels exampleEnv (cTunnels usedChainConfig) v1 g1 = (v2, g2)"
    by (cases "validateTunnels exampleEnv (cTunnels usedChainConfig) v1 g1") blast
  have g2: "g2 = ?g" using vh vt by (simp add: validatedRegistry_def)
  obtain v g' where cv: "Configuration_Validate exampleEnv ''me'' ?keys usedChainConfig initialGlobals = Inr (v, g')"
    using Configuration_Validate_returns [OF vh] by blast
  obtain w1 s1 where wh: "validateHosts exampleEnv ''me'' (cHosts ?sc) True initialGlobals = Inr (w1, s1)"
    by (auto simp: all_eval)
  obtain w s' where cw: "Configuration_Validate exampleEnv ''me'' [''S''] ?sc initialGlobals = Inr (w, s')"
    using Configuration_Validate_returns [OF wh] by blast
  obtain u1 q1 where uh: "validateHosts exampleEnv ''me'' (cHosts unusedChainConfig) True initialGlobals = Inr (u1, q1)"
    by (auto simp: all_eval)
  obtain u2 q2 where ut: "validateTunnels exampleEnv (cTunnels unusedChainConfig) u1 q1 = (u2, q2)"
    by (cases "validateTunnels exampleEnv (cTunnels unusedChainConfig) u1 q1") blast
  have q2: "q2 = ?u" using uh ut by (simp add: validatedRegistry_def)
  obtain x q' where cu: "Configuration_Validate exampleEnv ''me'' ?ukeys unusedChainConfig initialGlobals = Inr (x, q')"
    using Configuration_Validate_returns [OF uh] by blast
  have q': "validatedGlobals exampleEnv ''me'' ?ukeys unusedChainConfig = q'"
    using cu by (simp add: validatedGlobals_def)
  have "\<exists>hu. Hosts ?u ''A'' = Some hu \<and> \<not> isHost hu" by (simp add: all_eval)
  then obtain hu where hu: "Hosts ?u ''A'' = Some hu" "\<not> isHost hu" by blast
  have "\<exists>hp. Hosts (snd (validateJumpHosts exampleEnv ?ukeys ?u)) ''A'' = Some hp \<and> \<not> isHost hp \<and> \<not> isJumpHost hp"
    by (simp add: all_eval)
  then obtain hp where hp: "Hosts (snd (validateJumpHosts exampleEnv ?ukeys ?u)) ''A'' = Some hp"
      "\<not> isHost hp" "\<not> isJumpHost hp" by blast
  note T1 = jump_host_rejection [where g = ?g and k = "''A''" and keys = ?keys and env = exampleEnv
              and h = h and pre = "[''C'']" and post = "[''B'']"
              and ?h0.0 = ?s and du = "''me''" and gs = initialGlobals and ?v0.0 = v0
              and h0' = h0' and g0' = g0' and c = usedChainConfig and gi = initialGlobals
              and v = v and g' = g' and ?v1.0 = v1 and ?g1.0 = g1 and ?v2.0 = v2 and ?g2.0 = g2]
  note T2 = jump_host_rejection [where keys = "[''S'']" and env = exampleEnv
              and du = "''me''" and c = ?sc and gi = initialGlobals and v = w and g' = s']
  note T3 = jump_host_rejection [where keys = ?ukeys and env = exampleEnv
              and du = "''me''" and c = unusedChainConfig and gi = initialGlobals and v = x and g' = q'
              and ?v1.0 = u1 and ?g1.0 = q1 and ?v2.0 = u2 and ?g2.0 = q2
              and gu = ?u and ku = "''A''" and hu = hu and hp = hp and vu = True and lu = "[]"]
  have c1: "\<not> fst (validateJumpHosts exampleEnv ?keys ?g)" using T1 ch mem by blast
  have "ErrMultiHostJump (hName h) \<in> set (console (snd (validateJumpHosts exampleEnv ([''C''] @ ''A'' # [''B'']) ?g)))"
    using T1 ch h(1) reach by blast
  then have c2: "ErrMultiHostJump ''A'' \<in> set (console (snd (validateJumpHosts exampleEnv ?keys ?g)))"
    using h(2) by simp
  have c3: "\<not> v0 \<and> ErrJumpHostSelf ''S'' \<in> set (console g0')"
    using T1 self hv by (simp add: exampleHost_def)
  have c4: "\<not> v" using T1 cv vh vt g2 ch mem by blast
  have c5: "\<not> w" using T2 cw self by auto
  have c6: "jumpHostStep exampleEnv ''A'' (True, [], ?u) = (Next, True, [], ?u)"
    using T3 hu by blast
  have c7: "Hosts q' ''A'' = None"
    using T3 cu uh ut q2 hp by blast
  show ?thesis
    using ch reach c1 c2 self(2) hv c3 cv c4 cw c5 hu c6 c7 q' by auto
qed

text \<open>
  Claim C5 as stated fails in two ways.  First, it also covers hosts that no tunnel points
  at, and the resolver only looks at hosts marked as tunnel targets: with hosts A (jump
  host B), B (jump host C) and C, and one tunnel to C, the whole configuration validates
  although the jump host of A names a jump host itself.  Second, a failed port probe ends
  the resolver loop: with no free port, the round for B (behind A) ends the loop before X
  (behind Y, which is behind A) is looked at; validation returns false, but no chaining
  error names X.
\<close>

theorem jump_host_rejection_counterexample:
  "map_sum id fst (Configuration_Validate exampleEnv ''me'' [''A'', ''B'', ''C''] unusedChainConfig initialGlobals)
     = Inr True
   \<and> map_option hJumpHost (List.find (\<lambda>h. hName h = ''A'') (cHosts unusedChainConfig)) = Some ''B''
   \<and> map_option hJumpHost (List.find (\<lambda>h. hName h = ''B'') (cHosts unusedChainConfig)) = Some ''C''
   \<and> chained (validatedRegistry noPortEnv ''me'' brokenProbeConfig) ''X''
   \<and> map_sum id fst (Configuration_Validate noPortEnv ''me'' [''A'', ''B'', ''X'', ''Y''] brokenProbeConfig initialGlobals)
       = Inr False
   \<and> ErrMultiHostJump ''X''
       \<notin> set (console (validatedGlobals noPortEnv ''me'' [''A'', ''B'', ''X'', ''Y''] brokenProbeConfig))"
proof -
  have "map_sum id fst (Configuration_Validate exampleEnv ''me'' [''A'', ''B'', ''C''] unusedChainConfig initialGlobals)
     = Inr True"
    by (simp add: all_eval)
  moreover have "map_option hJumpHost (List.find (\<lambda>h. hName h = ''A'') (cHosts unusedChainConfig)) = Some ''B''"
    by (simp add: all_eval)
  moreover have "map_option hJumpHost (List.find (\<lambda>h. hName h = ''B'') (cHosts unusedChainConfig)) = Some ''C''"
    by (simp add: all_eval)
  moreover have "chained (validatedRegistry noPortEnv ''me'' brokenProbeConfig) ''X''"
    by (simp add: all_eval chained_def noPortEnv_def brokenProbeConfig_def)
  moreover have "map_sum id fst (Configuration_Validate noPortEnv ''me'' [''A'', ''B'', ''X'', ''Y''] brokenProbeConfig initialGlobals)
       = Inr False"
    by (simp add: all_eval noPortEnv_def brokenProbeConfig_def)
  moreover have "ErrMultiHostJump ''X''
       \<notin> set (console (validatedGlobals noPortEnv ''me'' [''A'', ''B'', ''X'', ''Y''] brokenProbeConfig))"
    by (simp add: all_eval noPortEnv_def brokenProbeConfig_def validatedGlobals_def)
  ultimately show ?thesis by simp
qed

text \<open>The scenario of the specification: after the hosts and the tunnel are validated,
  the round for B registers the tunnel "A jumphost" with forward address 10.0.0.7:22 and
  local address 127.0.0.1:40000, and B's address becomes that local address.\<close>

lemma jumpHostStep_round_example:
  "registryKeyed (validatedRegistry exampleEnv ''me'' exampleConfig)
   \<and> freePort exampleEnv (length ([] :: int list)) = Some 40000
   \<and> (\<exists>h j. Hosts (validatedRegistry exampleEnv ''me'' exampleConfig) ''B'' = Some h
         \<and> hJumpHost h = ''A'' \<and> isHost h
         \<and> hAddress h = Some \<lparr>valid = True, address = ''10.0.0.7:22'', port = 22\<rparr>
         \<and> Hosts (validatedRegistry exampleEnv ''me'' exampleConfig) ''A'' = Some j
         \<and> hJumpHost j = [])
   \<and> (\<exists>jt g'. jumpHostStep exampleEnv ''B'' (True, [], validatedRegistry exampleEnv ''me'' exampleConfig)
                  = (Next, True, [40000], g')
         \<and> Tunnels g' ''A jumphost'' = Some jt
         \<and> tName jt = ''A jumphost''
         \<and> tHost jt = ''A''
         \<and> tForward jt = Some \<lparr>valid = True, address = ''10.0.0.7:22'', port = 22\<rparr>
         \<and> tLocal jt = Some \<lparr>valid = True, address = ''127.0.0.1:40000'', port = 40000\<rparr>
         \<and> map_option hAddress (Hosts g' ''B'') = Some (tLocal jt))"
proof -
  let ?g = "validatedRegistry exampleEnv ''me'' exampleConfig"
  obtain v1 g1 where vh: "validateHosts exampleEnv ''me'' (cHosts exampleConfig) True initialGlobals = Inr (v1, g1)"
    by (auto simp: all_eval)
  have g: "?g = snd (validateTunnels exampleEnv (cTunnels exampleConfig) v1 g1)"
    using vh by (simp add: validatedRegistry_def)
  have keyed: "registryKeyed ?g"
    unfolding g
    using validateTunnels_registryKeyed [of exampleEnv "cTunnels exampleConfig" v1 g1]
      validateHosts_registryKeyed [OF vh registryKeyed_initial]
    by (metis prod.collapse)
  have port: "freePort exampleEnv (length ([] :: int list)) = Some 40000"
    by (simp add: exampleEnv_def)
  have "\<exists>h j. Hosts ?g ''B'' = Some h
         \<and> hJumpHost h = ''A'' \<and> isHost h
         \<and> hAddress h = Some \<lparr>valid = True, address = ''10.0.0.7:22'', port = 22\<rparr>
         \<and> Hosts ?g ''A'' = Some j \<and> hJumpHost j = [] \<and> hName j = ''A''"
    by (simp add: all_eval)
  then obtain h j where
    h: "Hosts ?g ''B'' = Some h" "hJumpHost h = ''A''" "isHost h"
       "hAddress h = Some \<lparr>valid = True, address = ''10.0.0.7:22'', port = 22\<rparr>"
    and j: "Hosts ?g ''A'' = Some j" "hJumpHost j = []" "hName j = ''A''"
    by blast
  have jn: "hJumpHost h \<noteq> []" using h(2) by simp
  have j': "Hosts ?g (hJumpHost h) = Some j" using h(2) j(1) by simp
  from jumpHostStep_round [OF keyed h(1) jn h(3) j' j(2) port, of True]
  obtain jt g' where
    r: "jumpHostStep exampleEnv ''B'' (True, [], ?g) = (Next, True, [] @ [40000], g')"
       "Tunnels g' (hName j @ '' jumphost'') = Some jt"
       "tName jt = hName j @ '' jumphost''"
       "tHost jt = hJumpHost h"
       "tForward jt = map_option (\<lambda>a. if IsBlank a then a
               else snd (AddressValidate exampleEnv ''tunnel'' (hName j @ '' jumphost'') ''forward address'' True False a))
               (hAddress h)"
       "tLocal jt = Some (snd (AddressValidate exampleEnv ''tunnel'' (hName j @ '' jumphost'') ''local address''
               True False (NewAddress (''127.0.0.1:'' @ itoa (int32 40000)))))"
       "Hosts g' ''B'' = Some (h\<lparr>hAddress := tLocal jt\<rparr>)"
    by blast
  have f: "tForward jt = Some \<lparr>valid = True, address = ''10.0.0.7:22'', port = 22\<rparr>"
    using r(5) h(4) by (simp add: string_eval address_eval exampleEnv_def int32_def)
  have l: "tLocal jt = Some \<lparr>valid = True, address = ''127.0.0.1:40000'', port = 40000\<rparr>"
    using r(6) by (simp add: string_eval address_eval exampleEnv_def int32_def)
  show ?thesis
    using keyed port h j r(1,2,3,4,7) f l by (simp add: j(3) h(2))
qed

subsection \<open>Two hosts behind one jump host\<close>

text \<open>
  Claim C1, on the whole resolver.  With hosts A, B (behind A) and C (behind A), a tunnel
  to each of B and C, and the iteration order A, B, C, \<^verbatim>\<open>Configuration.Validate\<close>
  returns true.  Both rounds store their tunnel under the name "A jumphost": the tunnel's
  own validation reports the name as redefined, \<^verbatim>\<open>validateJumpHosts\<close> drops its
  result, and the tunnel of the round for C takes the place of the tunnel of the round for
  B.  Afterwards the registry holds the tunnels T1, T2 and "A jumphost" and no other;
  "A jumphost" listens on 127.0.0.1:40001 and forwards to the original address of C; the
  address of B is 127.0.0.1:40000, where no registered tunnel listens, and no registered
  tunnel forwards to the original address of B, 10.0.0.7:22.
\<close>

theorem shared_jump_host_overwrites_tunnel:
  "map_sum id fst (Configuration_Validate exampleEnv ''me'' [''A'', ''B'', ''C''] sharedJumpConfig initialGlobals)
     = Inr True
   \<and> dom (Tunnels (validatedGlobals exampleEnv ''me'' [''A'', ''B'', ''C''] sharedJumpConfig))
       = {''T1'', ''T2'', ''A jumphost''}
   \<and> Tunnels (validatedGlobals exampleEnv ''me'' [''A'', ''B'', ''C''] sharedJumpConfig) ''A jumphost''
       = Some \<lparr>tName = ''A jumphost'',
               tLocal = Some \<lparr>valid = True, address = ''127.0.0.1:40001'', port = 40001\<rparr>,
               tHost = ''A'',
               tForward = Some \<lparr>valid = True, address = ''10.0.0.8:22'', port = 22\<rparr>\<rparr>
   \<and> Tunnels (validatedGlobals exampleEnv ''me'' [''A'', ''B'', ''C''] sharedJumpConfig) ''T1''
       = Some \<lparr>tName = ''T1'',
               tLocal = Some \<lparr>valid = True, address = ''127.0.0.1:80'', port = 80\<rparr>,
               tHost = ''B'',
               tForward = Some \<lparr>valid = True, address = ''10.0.0.5:80'', port = 80\<rparr>\<rparr>
   \<and> Tunnels (validatedGlobals exampleEnv ''me'' [''A'', ''B'', ''C''] sharedJumpConfig) ''T2''
       = Some \<lparr>tName = ''T2'',
               tLocal = Some \<lparr>valid = True, address = ''127.0.0.1:81'', port = 81\<rparr>,
               tHost = ''C'',
               tForward = Some \<lparr>valid = True, address = ''10.0.0.6:81'', port = 81\<rparr>\<rparr>
   \<and> map_option hAddress (Hosts (validatedGlobals exampleEnv ''me'' [''A'', ''B'', ''C''] sharedJumpConfig) ''B'')
       = Some (Some \<lparr>valid = True, address = ''127.0.0.1:40000'', port = 40000\<rparr>)
   \<and> map_option hAddress (Hosts (validatedGlobals exampleEnv ''me'' [''A'', ''B'', ''C''] sharedJumpConfig) ''C'')
       = Some (Some \<lparr>valid = True, address = ''127.0.0.1:40001'', port = 40001\<rparr>)
   \<and> map_option hAddress (List.find (\<lambda>h. hName h = ''B'') (cHosts sharedJumpConfig))
       = Some (Some (NewAddress ''10.0.0.7:22''))
   \<and> ErrTunnelRedefined ''A jumphost''
       \<in> set (console (validatedGlobals exampleEnv ''me'' [''A'', ''B'', ''C''] sharedJumpConfig))"
proof -
  let ?g = "validatedGlobals exampleEnv ''me'' [''A'', ''B'', ''C''] sharedJumpConfig"
  have r: "map_sum id fst (Configuration_Validate exampleEnv ''me'' [''A'', ''B'', ''C''] sharedJumpConfig initialGlobals)
     = Inr True"
    by (simp add: all_eval sharedJumpConfig_def)
  have d: "dom (Tunnels ?g) = {''T1'', ''T2'', ''A jumphost''}"
    by (auto simp add: all_eval sharedJumpConfig_def validatedGlobals_def)
  have j: "Tunnels ?g ''A jumphost''
       = Some \<lparr>tName = ''A jumphost'',
               tLocal = Some \<lparr>valid = True, address = ''127.0.0.1:40001'', port = 40001\<rparr>,
               tHost = ''A'',
               tForward = Some \<lparr>valid = True, address = ''10.0.0.8:22'', port = 22\<rparr>\<rparr>"
    by (simp add: all_eval sharedJumpConfig_def validatedGlobals_def)
  have t1: "Tunnels ?g ''T1''
       = Some \<lparr>tName = ''T1'',
               tLocal = Some \<lparr>valid = True, address = ''127.0.0.1:80'', port = 80\<rparr>,
               tHost = ''B'',
               tForward = Some \<lparr>valid = True, address = ''10.0.0.5:80'', port = 80\<rparr>\<rparr>"
    by (simp add: all_eval sharedJumpConfig_def validatedGlobals_def)
  have t2: "Tunnels ?g ''T2''
       = Some \<lparr>tName = ''T2'',
               tLocal = Some \<lparr>valid = True, address = ''127.0.0.1:81'', port = 81\<rparr>,
               tHost = ''C'',
               tForward = Some \<lparr>valid = True, address = ''10.0.0.6:81'', port = 81\<rparr>\<rparr>"
    by (simp add: all_eval sharedJumpConfig_def validatedGlobals_def)
  have b: "map_option hAddress (Hosts ?g ''B'')
       = Some (Some \<lparr>valid = True, address = ''127.0.0.1:40000'', port = 40000\<rparr>)"
    by (simp add: all_eval sharedJumpConfig_def validatedGlobals_def)
  have c: "map_option hAddress (Hosts ?g ''C'')
       = Some (Some \<lparr>valid = True, address = ''127.0.0.1:40001'', port = 40001\<rparr>)"
    by (simp add: all_eval sharedJumpConfig_def validatedGlobals_def)
  have o: "map_option hAddress (List.find (\<lambda>h. hName h = ''B'') (cHosts sharedJumpConfig))
       = Some (Some (NewAddress ''10.0.0.7:22''))"
    by (simp add: sharedJumpConfig_def exampleHost_def)
  have e: "ErrTunnelRedefined ''A jumphost'' \<in> set (console ?g)"
    by (simp add: all_eval sharedJumpConfig_def validatedGlobals_def)
  show ?thesis
    by (intro conjI) (rule r d j t1 t2 b c o e)+
qed

section \<open>Properties of the statistics wire protocol\<close>

lemma padUpdate_eq:
  "padUpdate u = u @ replicate (256 - length u mod 256) (CHR 0x00)"
proof -
  have lt: "length u mod 256 < 256" by simp
  have "drop (256 - (256 - length u mod 256)) (replicate 256 (CHR 0x00))
          = replicate (256 - (256 - (256 - length u mod 256))) (CHR 0x00)"
    by (simp only: drop_replicate)
  moreover have "256 - (256 - (256 - length u mod 256)) = 256 - length u mod 256"
    using lt by arith
  ultimately show ?thesis by (simp only: padUpdate_def zeros_def Let_def)
qed


lemma pad_count: "0 < 256 - length (u :: string) mod 256 \<and> 256 - length u mod 256 \<le> 256"
  by simp

lemma padUpdate_length: "length (padUpdate u) mod 256 = 0"
proof -
  have lt: "length u mod 256 < 256" by simp
  have "length (padUpdate u) = length u + (256 - length u mod 256)"
    by (simp only: padUpdate_eq length_append length_replicate)
  also have "\<dots> = 256 * (length u div 256) + 256"
    using lt div_mult_mod_eq [of "length u" 256] by arith
  finally show ?thesis by simp
qed

lemma takeWhile_payload:
  assumes "CHR 0x00 \<notin> set u" and "0 < m"
  shows "takeWhile (\<lambda>c. c \<noteq> CHR 0x00) (u @ replicate m (CHR 0x00)) = u"
proof -
  obtain m' where m: "m = Suc m'" using assms(2) by (cases m) auto
  have "\<forall>c \<in> set u. c \<noteq> CHR 0x00" using assms(1) by auto
  then have "takeWhile (\<lambda>c. c \<noteq> CHR 0x00) (u @ CHR 0x00 # replicate m' (CHR 0x00)) = u"
    by (simp add: takeWhile_tail)
  then show ?thesis by (simp add: m)
qed

lemma padUpdate_payload:
  assumes "CHR 0x00 \<notin> set u"
  shows "takeWhile (\<lambda>c. c \<noteq> CHR 0x00) (padUpdate u) = u"
  using takeWhile_payload [OF assms, of "256 - length u mod 256"]
  by (simp only: padUpdate_eq pad_count)

lemma blocksOf_single:
  assumes "length xs = n" and "n > 0"
  shows "blocksOf n xs = [xs]"
proof -
  have "xs \<noteq> []" using assms by auto
  then have "blocksOf n xs = take n xs # blocksOf n (drop n xs)"
    using assms(2) by (subst blocksOf.simps) simp
  moreover have "blocksOf n (drop n xs) = []" using assms(1) by (subst blocksOf.simps) simp
  ultimately show ?thesis using assms(1) by simp
qed

lemma blocksOf_append:
  assumes "length a = n" and "n > 0"
  shows "blocksOf n (a @ b) = a # blocksOf n b"
proof -
  have "a @ b \<noteq> []" using assms by auto
  then have "blocksOf n (a @ b) = take n (a @ b) # blocksOf n (drop n (a @ b))"
    using assms(2) by (subst blocksOf.simps) simp
  then show ?thesis using assms(1) by simp
qed


lemma receiveStep_full:
  assumes "length (bs s) = 256" and "length d = 256"
  shows "receiveStep um d s =
     (if d ! 255 = CHR 0x00 then
        (case um (takeWhile (\<lambda>c. c \<noteq> CHR 0x00) (str s @ d)) of
           None \<Rightarrow> Inr (s\<lparr>bs := d, str := []\<rparr>)
         | Some ts \<Rightarrow>
             (if list_all (\<lambda>t. t \<noteq> None) ts
              then Inr (s\<lparr>bs := d, str := [], printed := printed s @ [map the ts]\<rparr>)
              else Inl NilDereference))
      else Inr (s\<lparr>bs := d, str := str s @ d\<rparr>))"
  using assms by (simp add: receiveStep_def Let_def split: option.splits)

lemma receiveStep_middle:
  assumes "length (bs s) = 256" and "length d = 256" and "CHR 0x00 \<notin> set d"
  shows "receiveStep um d s = Inr (s\<lparr>bs := d, str := str s @ d\<rparr>)"
proof -
  have "d ! 255 \<in> set d" using assms(2) by (intro nth_mem) simp
  then have "d ! 255 \<noteq> CHR 0x00" using assms(3) by metis
  then show ?thesis by (simp only: receiveStep_full [OF assms(1,2)] if_False)
qed

lemma receiveStep_last:
  assumes "length (bs s) = 256" and "length (q @ replicate x (CHR 0x00)) = 256" and "0 < x"
      and "CHR 0x00 \<notin> set q" and "CHR 0x00 \<notin> set (str s)"
  shows "receiveStep um (q @ replicate x (CHR 0x00)) s =
     (case um (str s @ q) of
        None \<Rightarrow> Inr (s\<lparr>bs := q @ replicate x (CHR 0x00), str := []\<rparr>)
      | Some ts \<Rightarrow>
          (if list_all (\<lambda>t. t \<noteq> None) ts
           then Inr (s\<lparr>bs := q @ replicate x (CHR 0x00), str := [], printed := printed s @ [map the ts]\<rparr>)
           else Inl NilDereference))"
proof -
  let ?d = "q @ replicate x (CHR 0x00)"
  have len: "length q + x = 256" using assms(2) by simp
  have "?d ! 255 = replicate x (CHR 0x00) ! (255 - length q)"
    using len assms(3) by (simp add: nth_append)
  also have "\<dots> = CHR 0x00" using len assms(3) by (intro nth_replicate) arith
  finally have z: "?d ! 255 = CHR 0x00" .
  have "CHR 0x00 \<notin> set (str s @ q)" using assms(4,5) by simp
  from takeWhile_payload [OF this assms(3)]
  have tw: "takeWhile (\<lambda>c. c \<noteq> CHR 0x00) (str s @ ?d) = str s @ q" by simp
  show ?thesis by (simp only: receiveStep_full [OF assms(1,2)] z tw simp_thms if_True)
qed

lemma receiveLoop_frame:
  assumes "length (bs s) = 256" and "CHR 0x00 \<notin> set (str s)" and "CHR 0x00 \<notin> set q"
      and "0 < x" and "x \<le> 256" and "(length q + x) mod 256 = 0"
      and "case um (str s @ q) of None \<Rightarrow> True | Some ts \<Rightarrow> list_all (\<lambda>t. t \<noteq> None) ts"
  shows "\<exists>B. length B = 256
        \<and> receiveLoop um (map ReadData (blocksOf 256 (q @ replicate x (CHR 0x00))) @ es) s
          = receiveLoop um es
              (s\<lparr>bs := B, str := [],
                 printed := printed s @ (case um (str s @ q) of None \<Rightarrow> [] | Some ts \<Rightarrow> [map the ts])\<rparr>)"
  using assms
proof (induction "length q" arbitrary: q s rule: less_induct)
  case less
  show ?case
  proof (cases "length q < 256")
    case True
    have len: "length (q @ replicate x (CHR 0x00)) = 256"
    proof -
      have "length q + x < 512" "0 < length q + x" using True less.prems(4,5) by simp_all
      moreover have "(length q + x) mod 256 = 0" using less.prems(6) .
      ultimately have "length q + x = 256" by presburger
      then show ?thesis by simp
    qed
    have one: "blocksOf 256 (q @ replicate x (CHR 0x00)) = [q @ replicate x (CHR 0x00)]"
      using len by (intro blocksOf_single) simp_all
    note st = receiveStep_last [OF less.prems(1) len less.prems(4) less.prems(3) less.prems(2), of um]
    show ?thesis
    proof (cases "um (str s @ q)")
      case None
      then show ?thesis using len st
        by (intro exI [of _ "q @ replicate x (CHR 0x00)"]) (simp add: one del: replicate.simps)
    next
      case (Some ts)
      then have "list_all (\<lambda>t. t \<noteq> None) ts" using less.prems(7) by simp
      then show ?thesis using len st Some
        by (intro exI [of _ "q @ replicate x (CHR 0x00)"]) (simp add: one del: replicate.simps)
    qed
  next
    case False
    define q1 where "q1 = take 256 q"
    define q2 where "q2 = drop 256 q"
    have q: "q = q1 @ q2" and l1: "length q1 = 256" and l2: "length q2 < length q"
      using False by (simp_all add: q1_def q2_def)
    have nz: "CHR 0x00 \<notin> set q1" "CHR 0x00 \<notin> set q2"
      using less.prems(3) q by auto
    have bl: "blocksOf 256 (q @ replicate x (CHR 0x00)) = q1 # blocksOf 256 (q2 @ replicate x (CHR 0x00))"
      using blocksOf_append [of q1 256 "q2 @ replicate x (CHR 0x00)"] l1 q by simp
    let ?s1 = "s\<lparr>bs := q1, str := str s @ q1\<rparr>"
    have st: "receiveStep um q1 s = Inr ?s1"
      using receiveStep_middle [OF less.prems(1) l1 nz(1)] .
    have p1: "length (bs ?s1) = 256" using l1 by simp
    have p2: "CHR 0x00 \<notin> set (str ?s1)" using less.prems(2) nz(1) by simp
    have p6: "(length q2 + x) mod 256 = 0"
    proof -
      have "length q = 256 + length q2" using q l1 by simp
      then have "(256 + (length q2 + x)) mod 256 = 0" using less.prems(6) by (simp add: add.assoc)
      then show ?thesis by simp
    qed
    have acc: "str ?s1 @ q2 = str s @ q" using q by simp
    have p7: "case um (str ?s1 @ q2) of None \<Rightarrow> True | Some ts \<Rightarrow> list_all (\<lambda>t. t \<noteq> None) ts"
      using less.prems(7) by (simp only: acc)
    from less.hyps [OF l2 p1 p2 nz(2) less.prems(4,5) p6 p7]
    obtain B where B: "length B = 256"
      "receiveLoop um (map ReadData (blocksOf 256 (q2 @ replicate x (CHR 0x00))) @ es) ?s1
          = receiveLoop um es
              (?s1\<lparr>bs := B, str := [],
                 printed := printed ?s1 @ (case um (str ?s1 @ q2) of None \<Rightarrow> [] | Some ts \<Rightarrow> [map the ts])\<rparr>)"
      by blast
    have "receiveLoop um (map ReadData (blocksOf 256 (q @ replicate x (CHR 0x00))) @ es) s
          = receiveLoop um (map ReadData (blocksOf 256 (q2 @ replicate x (CHR 0x00))) @ es) ?s1"
      by (simp add: bl st del: replicate.simps)
    also have "\<dots> = receiveLoop um es
              (s\<lparr>bs := B, str := [],
                 printed := printed s @ (case um (str s @ q) of None \<Rightarrow> [] | Some ts \<Rightarrow> [map the ts])\<rparr>)"
      unfolding B(2) acc by simp
    finally show ?thesis using B(1) by blast
  qed
qed

lemma writeUpdate_wire:
  assumes "c \<in> set (connections m)" and "\<not> writeFails c"
  shows "wire (writeUpdate False writeFails update m) c = wire m c @ padUpdate update"
  using assms by (simp add: writeUpdate_def Let_def)

lemma newSubscriber_fields:
  "length (bs newSubscriber) = 256" "str newSubscriber = []" "printed newSubscriber = []"
  "bs newSubscriber = replicate 256 (CHR 0x00)"
  by (simp_all add: newSubscriber_def)

text \<open>
  Claim C2.  Let the serializer turn the records \<open>ts\<close> into a text without a zero byte
  that the parser reads back as the same records.  Then the publisher sends every live
  subscriber that text followed by zero bytes up to the next multiple of 256 (at least
  one), the part of that frame before its first zero byte is the text, and a subscriber
  that starts with an empty accumulator and is delivered the frame in reads of 256 bytes
  prints exactly the records \<open>ts\<close>, once, and goes on with an empty accumulator.
\<close>

theorem stats_frame_round_trip:
  assumes "marshal ts = Some payload" and "um payload = Some (map Some ts)"
      and "CHR 0x00 \<notin> set payload"
      and "c \<in> set (connections m)" and "\<not> writeFails c"
      and "str s = []" and "length (bs s) = 256"
  shows "wire (publish marshal False writeFails ts m) c = wire m c @ padUpdate payload
         \<and> length (padUpdate payload) mod 256 = 0
         \<and> takeWhile (\<lambda>b. b \<noteq> CHR 0x00) (padUpdate payload) = payload
         \<and> (\<exists>B. length B = 256
               \<and> receiveLoop um (map ReadData (blocksOf 256 (padUpdate payload)) @ es) s
                 = receiveLoop um es (s\<lparr>bs := B, str := [], printed := printed s @ [ts]\<rparr>))"
proof -
  have w: "wire (publish marshal False writeFails ts m) c = wire m c @ padUpdate payload"
    using assms(1) writeUpdate_wire [of c m writeFails payload, OF assms(4,5)] by (simp add: publish_def)
  have nz: "CHR 0x00 \<notin> set (str s)" using assms(6) by simp
  have ok: "case um (str s @ payload) of None \<Rightarrow> True | Some ts \<Rightarrow> list_all (\<lambda>t. t \<noteq> None) ts"
    using assms(2,6) by (simp add: list_all_iff)
  have md: "(length payload + (256 - length payload mod 256)) mod 256 = 0"
    using padUpdate_length [of payload] by (simp only: padUpdate_eq length_append length_replicate)
  have pc: "0 < 256 - length payload mod 256" "256 - length payload mod 256 \<le> 256" by simp_all
  from receiveLoop_frame [of s payload "256 - length payload mod 256" um es, OF assms(7) nz assms(3) pc md ok]
  obtain B where B: "length B = 256"
    "receiveLoop um (map ReadData (blocksOf 256 (payload @ replicate (256 - length payload mod 256) (CHR 0x00))) @ es) s
       = receiveLoop um es (s\<lparr>bs := B, str := [],
            printed := printed s @ (case um (str s @ payload) of None \<Rightarrow> [] | Some ts \<Rightarrow> [map the ts])\<rparr>)"
    by blast
  have "map the (map Some ts) = ts" by (simp add: comp_def)
  then have "receiveLoop um (map ReadData (blocksOf 256 (padUpdate payload)) @ es) s
       = receiveLoop um es (s\<lparr>bs := B, str := [], printed := printed s @ [ts]\<rparr>)"
    using B(2) assms(2,6) by (simp only: padUpdate_eq) simp
  then show ?thesis
    using w padUpdate_length [of payload] padUpdate_payload [OF assms(3)] B(1) by blast
qed

theorem stats_frame_round_trip_witness:
  "exampleMarshal [exampleStats] = Some ''[T1,1,10,20]''
   \<and> exampleUnmarshal ''[T1,1,10,20]'' = Some (map Some [exampleStats])
   \<and> CHR 0x00 \<notin> set ''[T1,1,10,20]''
   \<and> (7 :: nat) \<in> set (connections \<lparr>connections = [7], lastUpdate = [], wire = (\<lambda>c. [])\<rparr>)
   \<and> str newSubscriber = [] \<and> length (bs newSubscriber) = 256
   \<and> wire (publish exampleMarshal False (\<lambda>c. False) [exampleStats]
              \<lparr>connections = [7], lastUpdate = [], wire = (\<lambda>c. [])\<rparr>) 7
        = padUpdate ''[T1,1,10,20]''
   \<and> (\<exists>B. length B = 256
         \<and> receiveLoop exampleUnmarshal (map ReadData (blocksOf 256 (padUpdate ''[T1,1,10,20]'')) @ []) newSubscriber
           = (Blocked, newSubscriber\<lparr>bs := B, str := [], printed := [[exampleStats]]\<rparr>))"
proof -
  have h: "exampleMarshal [exampleStats] = Some ''[T1,1,10,20]''"
    "exampleUnmarshal ''[T1,1,10,20]'' = Some (map Some [exampleStats])"
    "CHR 0x00 \<notin> set ''[T1,1,10,20]''"
    "(7 :: nat) \<in> set (connections \<lparr>connections = [7], lastUpdate = [], wire = (\<lambda>c. [])\<rparr>)"
    by (simp_all add: exampleMarshal_def exampleUnmarshal_def)
  note T = stats_frame_round_trip [where marshal = exampleMarshal and ts = "[exampleStats]"
      and payload = "''[T1,1,10,20]''" and um = exampleUnmarshal and c = 7
      and m = "\<lparr>connections = [7], lastUpdate = [], wire = (\<lambda>c. [])\<rparr>"
      and writeFails = "\<lambda>c. False" and s = newSubscriber and es = "[]"]
  show ?thesis using T h newSubscriber_fields(1,2,3) by simp
qed

text \<open>
  Claim C8.  A read that ends a frame (its last byte is zero) and whose accumulated text
  up to the first zero byte does not parse prints nothing, empties the accumulator and
  leaves the loop running on the next read: no disconnect, no return.  In particular a
  whole frame with a payload that does not parse, delivered in reads of 256 bytes, is
  skipped and the subscriber goes on with an empty accumulator.
\<close>

theorem malformed_frame_discarded:
  "(d \<noteq> [] \<and> bs s \<noteq> []
      \<and> (take (min (length d) (length (bs s))) d @ drop (min (length d) (length (bs s))) (bs s))
            ! (min (length d) (length (bs s)) - 1) = CHR 0x00
      \<and> um (takeWhile (\<lambda>b. b \<noteq> CHR 0x00)
              (str s @ take (min (length d) (length (bs s))) d @ drop (min (length d) (length (bs s))) (bs s))) = None
    \<longrightarrow> receiveLoop um (ReadData d # es) s
          = receiveLoop um es
              (s\<lparr>bs := take (min (length d) (length (bs s))) d @ drop (min (length d) (length (bs s))) (bs s),
                 str := []\<rparr>))
   \<and> (length (bs s) = 256 \<and> str s = [] \<and> CHR 0x00 \<notin> set payload \<and> um payload = None
    \<longrightarrow> (\<exists>B. length B = 256
           \<and> receiveLoop um (map ReadData (blocksOf 256 (padUpdate payload)) @ es) s
             = receiveLoop um es (s\<lparr>bs := B, str := []\<rparr>)))"
proof (intro conjI impI)
  let ?n = "min (length d) (length (bs s))"
  let ?buf = "take ?n d @ drop ?n (bs s)"
  assume a: "d \<noteq> [] \<and> bs s \<noteq> [] \<and> ?buf ! (?n - 1) = CHR 0x00
      \<and> um (takeWhile (\<lambda>b. b \<noteq> CHR 0x00) (str s @ ?buf)) = None"
  then have n: "0 < ?n" by simp
  have "receiveStep um d s = Inr (s\<lparr>bs := ?buf, str := []\<rparr>)"
    using a n by (simp add: receiveStep_def Let_def)
  then show "receiveLoop um (ReadData d # es) s = receiveLoop um es (s\<lparr>bs := ?buf, str := []\<rparr>)"
    by simp
next
  assume a: "length (bs s) = 256 \<and> str s = [] \<and> CHR 0x00 \<notin> set payload \<and> um payload = None"
  then have nz: "CHR 0x00 \<notin> set (str s)" by simp
  have ok: "case um (str s @ payload) of None \<Rightarrow> True | Some ts \<Rightarrow> list_all (\<lambda>t. t \<noteq> None) ts"
    using a by simp
  have md: "(length payload + (256 - length payload mod 256)) mod 256 = 0"
    using padUpdate_length [of payload] by (simp only: padUpdate_eq length_append length_replicate)
  from a have l: "length (bs s) = 256" and z: "CHR 0x00 \<notin> set payload" by simp_all
  have pc: "0 < 256 - length payload mod 256" "256 - length payload mod 256 \<le> 256" by simp_all
  from receiveLoop_frame [of s payload "256 - length payload mod 256" um es, OF l nz z pc md ok]
  obtain B where B: "length B = 256"
    "receiveLoop um (map ReadData (blocksOf 256 (payload @ replicate (256 - length payload mod 256) (CHR 0x00))) @ es) s
       = receiveLoop um es (s\<lparr>bs := B, str := [],
            printed := printed s @ (case um (str s @ payload) of None \<Rightarrow> [] | Some ts \<Rightarrow> [map the ts])\<rparr>)"
    by blast
  have "receiveLoop um (map ReadData (blocksOf 256 (padUpdate payload)) @ es) s
       = receiveLoop um es (s\<lparr>bs := B, str := []\<rparr>)"
    using B(2) a by (simp only: padUpdate_eq) simp
  then show "\<exists>B. length B = 256
           \<and> receiveLoop um (map ReadData (blocksOf 256 (padUpdate payload)) @ es) s
             = receiveLoop um es (s\<lparr>bs := B, str := []\<rparr>)"
    using B(1) by blast
qed

theorem malformed_frame_discarded_witness:
  "exampleUnmarshal ''garbage'' = None
   \<and> CHR 0x00 \<notin> set ''garbage''
   \<and> length (bs newSubscriber) = 256 \<and> str newSubscriber = []
   \<and> receiveLoop exampleUnmarshal [ReadData (''garbage'' @ [CHR 0x00]), ReadFailed] newSubscriber
        = (Disconnected, newSubscriber\<lparr>bs := ''garbage'' @ replicate 249 (CHR 0x00), str := []\<rparr>)
   \<and> (\<exists>B. length B = 256
         \<and> receiveLoop exampleUnmarshal (map ReadData (blocksOf 256 (padUpdate ''garbage'')) @ []) newSubscriber
           = (Blocked, newSubscriber\<lparr>bs := B, str := []\<rparr>))"
proof -
  have h: "exampleUnmarshal ''garbage'' = None" "CHR 0x00 \<notin> set ''garbage''"
    by (simp_all add: exampleUnmarshal_def)
  have b: "take (min (length (''garbage'' @ [CHR 0x00])) (length (bs newSubscriber))) (''garbage'' @ [CHR 0x00])
             @ drop (min (length (''garbage'' @ [CHR 0x00])) (length (bs newSubscriber))) (bs newSubscriber)
           = ''garbage'' @ [CHR 0x00] @ replicate 248 (CHR 0x00)"
    by (simp add: newSubscriber_fields(4) del: replicate.simps)
  have "(249 :: nat) = Suc 248" by simp
  then have r: "replicate 249 (CHR 0x00) = [CHR 0x00] @ replicate 248 (CHR 0x00)"
    by (simp only: replicate_Suc append_Cons append_Nil)
  note T = malformed_frame_discarded [where d = "''garbage'' @ [CHR 0x00]" and s = newSubscriber
              and um = exampleUnmarshal and es = "[ReadFailed]" and payload = "''garbage''"]
  note T' = malformed_frame_discarded [where d = "''garbage'' @ [CHR 0x00]" and s = newSubscriber
              and um = exampleUnmarshal and es = "[]" and payload = "''garbage''"]
  have c1: "receiveLoop exampleUnmarshal [ReadData (''garbage'' @ [CHR 0x00]), ReadFailed] newSubscriber
        = (Disconnected, newSubscriber\<lparr>bs := ''garbage'' @ replicate 249 (CHR 0x00), str := []\<rparr>)"
    using T [THEN conjunct1] h
    by (simp add: b r newSubscriber_fields exampleUnmarshal_def del: replicate.simps)
  have c2: "\<exists>B. length B = 256
         \<and> receiveLoop exampleUnmarshal (map ReadData (blocksOf 256 (padUpdate ''garbage'')) @ []) newSubscriber
           = (Blocked, newSubscriber\<lparr>bs := B, str := []\<rparr>)"
    using T' [THEN conjunct2] h newSubscriber_fields(1,2) by simp
  show ?thesis using h newSubscriber_fields(1,2) c1 c2 by blast
qed

section \<open>Properties of the relay loop\<close>











text \<open>Past the hypothesis the counter wraps: one more byte on a counter at the largest
  64-bit value gives the smallest one.\<close>

lemma copyStep_wraps:
  "copyStep True \<lparr>nr = 1, er = None, nw = 1, ew = None\<rparr>
      (Some \<lparr>sName = ''T1'', sConnections = 1, sReceived = 2 ^ 63 - 1, sTransmitted = 0\<rparr>)
   = (Continue, Some \<lparr>sName = ''T1'', sConnections = 1, sReceived = - (2 ^ 63), sTransmitted = 0\<rparr>)"
  by (simp add: copy_eval)

section \<open>Properties of the broadcaster\<close>

text \<open>Broadcasts are at least one interval apart.\<close>

lemma interval_pos: "0 < interval" "0 < second"
  by (simp_all add: interval_def second_def)

lemma spaced_start: "spaced (startBroadcaster t)"
  by (simp add: spaced_def startBroadcaster_def)

lemma spaced_wake:
  assumes "spaced b" and "pending b = Some w"
  shows "spaced (wake w b)"
proof -
  have lw: "lastBroadcast b + interval \<le> w" using assms by (simp add: spaced_def)
  have le: "\<forall>x \<in> set (emitted b). x \<le> lastBroadcast b" using assms(1) by (simp add: spaced_def)
  have "\<forall>x \<in> set (emitted b). x + interval \<le> w" using le lw by fastforce
  moreover have "\<forall>x \<in> set (emitted b). x \<le> w" using le lw interval_pos(1) by fastforce
  ultimately show ?thesis using assms(1) by (simp add: spaced_def wake_def sorted_wrt_append)
qed

lemma spaced_elapse:
  assumes "spaced b"
  shows "spaced (elapse t b)"
  using assms spaced_wake by (auto simp: elapse_def split: option.splits)

lemma spaced_onSignal:
  assumes "spaced b"
  shows "spaced (onSignal t b)"
  using assms interval_pos by (auto simp: spaced_def onSignal_def Let_def split: option.splits)

lemma spaced_connected:
  assumes "spaced b"
  shows "spaced (b\<lparr>subscribers := n\<rparr>)"
  using assms by (simp add: spaced_def split: option.splits)

lemma spaced_run:
  assumes "spaced b"
  shows "spaced (runBroadcaster es b)"
  using assms
proof (induction es arbitrary: b)
  case Nil
  then show ?case by simp
next
  case (Cons e es)
  then show ?case
    by (cases e) (simp_all add: spaced_elapse spaced_onSignal spaced_connected)
qed

lemma broadcasts_spaced:
  "sorted_wrt (\<lambda>x y. x + interval \<le> y) (emitted (runBroadcaster es (startBroadcaster t)))"
  using spaced_run [OF spaced_start, of es t] by (simp add: spaced_def)

text \<open>Once the flag is set with no task sleeping, no event ever leads to a broadcast.\<close>

lemma elapse_idle: "pending b = None \<Longrightarrow> elapse t b = b"
  by (simp add: elapse_def)

lemma onSignal_flagged: "updated b \<Longrightarrow> onSignal t b = b"
  by (simp add: onSignal_def)

lemma runBroadcaster_stuck:
  assumes "updated b" and "pending b = None"
  shows "emitted (runBroadcaster es b) = emitted b \<and> updated (runBroadcaster es b)"
  using assms
proof (induction es arbitrary: b)
  case Nil
  then show ?case by simp
next
  case (Cons e es)
  show ?case
  proof (cases e)
    case (Signal t)
    then show ?thesis using Cons by (simp add: elapse_idle onSignal_flagged)
  next
    case (Connected t)
    have "emitted (runBroadcaster es (b\<lparr>subscribers := subscribers b + 1\<rparr>))
            = emitted (b\<lparr>subscribers := subscribers b + 1\<rparr>)
          \<and> updated (runBroadcaster es (b\<lparr>subscribers := subscribers b + 1\<rparr>))"
      using Cons.prems by (intro Cons.IH) simp_all
    then show ?thesis using Connected Cons.prems by (simp add: elapse_idle)
  next
    case (Tick t)
    then show ?thesis using Cons by (simp add: elapse_idle)
  qed
qed

lemma onSignal_without_subscribers:
  assumes "\<not> updated b" and "subscribers b = 0" and "pending b = None"
  shows "updated (onSignal t b) \<and> pending (onSignal t b) = None \<and> emitted (onSignal t b) = emitted b"
  using assms by (simp add: onSignal_def Let_def)

lemma signal_without_subscribers_silences:
  assumes "\<not> updated b" and "subscribers b = 0" and "pending b = None"
  shows "emitted (runBroadcaster (Signal t # es) b) = emitted b"
proof -
  have e: "elapse t b = b" using assms(3) by (rule elapse_idle)
  from onSignal_without_subscribers [OF assms, of t]
  have "emitted (runBroadcaster es (onSignal t b)) = emitted (onSignal t b)"
    by (intro runBroadcaster_stuck [THEN conjunct1]) simp_all
  then show ?thesis using e onSignal_without_subscribers [OF assms, of t] by simp
qed

text \<open>With the flag clear, a subscriber connected and the last broadcast at least one
  interval old, a signal schedules the broadcast one second later.\<close>

lemma idle_signal_settles:
  assumes "\<not> updated b" and "0 < subscribers b" and "pending b = None"
      and "lastBroadcast b + interval \<le> now" and "now + second \<le> t"
  shows "emitted (elapse t (onSignal now b)) = emitted b @ [now + second]"
  using assms by (simp add: onSignal_def elapse_def wake_def Let_def)

lemma broadcaster_settle_example:
  "emitted (runBroadcaster [Connected 1000000000, Signal 100000000000, Signal 100500000000,
                            Signal 102000000000, Tick 200000000000]
              (startBroadcaster 0)) = [101000000000, 106000000000]"
  by (simp add: broadcaster_eval)

text \<open>
  Claim C3 says that after an idle interval the first signal is followed by a broadcast
  within one second.  The code loses this once a signal arrives while no subscriber is
  connected: the flag is set, no task is started to clear it, and every later signal is
  ignored.  A signal at time 0 with no subscriber, a subscriber connecting after 1 second
  and a signal after 100 seconds: no broadcast has been made after 200 seconds.
\<close>

theorem broadcaster_stuck_after_idle_signal:
  "emitted (runBroadcaster [Signal 0, Connected 1000000000, Signal 100000000000, Tick 200000000000]
              (startBroadcaster 0)) = []
   \<and> updated (runBroadcaster [Signal 0, Connected 1000000000, Signal 100000000000, Tick 200000000000]
              (startBroadcaster 0))
   \<and> subscribers (runBroadcaster [Signal 0, Connected 1000000000, Signal 100000000000, Tick 200000000000]
              (startBroadcaster 0)) = 1"
  by (simp add: broadcaster_eval)

end
